theory Spec2Isabelle
  imports Main "HOL-Library.Word"
begin

unbundle bit_operations_syntax

section \<open>JavaScript values\<close>

text \<open>
  The program handles JSON documents (the token cache, the bodies of HTTP responses), the
  value \<open>undefined\<close> and promises. A JSON document is a \<open>json\<close>; an object is the list of
  its properties in enumeration order. Numbers are the safe integers (up to
  \<open>Number.MAX_SAFE_INTEGER\<close>, which a double holds exactly); strings are lists of code
  units below 256. A promise is modelled by what it settles to.
\<close>

datatype json =
    JNull
  | JBool bool
  | JNum int
  | JStr string
  | JArr "json list"
  | JObj "(string \<times> json) list"

text \<open>
  The failures of the program: \<open>Error m\<close> is \<open>new Error(m)\<close>, \<open>SyntaxError\<close> is raised by
  \<open>JSON.parse\<close>, \<open>TypeError\<close> by a property read on \<open>null\<close>, by a failed conversion to a
  string and by \<open>node:url\<close> on a URL it refuses (\<open>ERR_INVALID_URL\<close>),
  \<open>InvalidTokenError\<close> by \<open>jwtDecode\<close>, \<open>ServerError\<close> is the argument of the
  listener's \<open>error\<close> event and \<open>NetworkError\<close> a rejected \<open>fetch\<close>. \<open>Unmodelled\<close> marks a text
  outside the JSON fragment modelled here (a number with a fraction or an exponent or
  beyond the safe integers, an escaped code unit above \<open>00FF\<close>, an object with an array
  index among its keys): nothing is claimed about such a text. \<open>OutOfFuel\<close> is what the
  parser returns when the bound of its recursion is reached, which \<open>JSON_parse\<close> never
  does.
\<close>

datatype error =
    Error string
  | SyntaxError
  | TypeError
  | InvalidTokenError
  | ServerError string
  | NetworkError string
  | Unmodelled
  | OutOfFuel

datatype 'a settled = Fulfilled 'a | Rejected error

datatype jsval = Undefined | Json json | Promise "jsval settled"

text \<open>What \<open>if (v)\<close>, \<open>!v\<close>, \<open>v ? a : b\<close> and \<open>a && b\<close> test: every object is truthy, a promise too.\<close>

fun truthy :: "jsval \<Rightarrow> bool" where
  "truthy Undefined = False"
| "truthy (Json JNull) = False"
| "truthy (Json (JBool b)) = b"
| "truthy (Json (JNum n)) = (n \<noteq> 0)"
| "truthy (Json (JStr s)) = (s \<noteq> [])"
| "truthy (Json (JArr vs)) = True"
| "truthy (Json (JObj kvs)) = True"
| "truthy (Promise p) = True"

text \<open>
  The property read \<open>v.k\<close>, for the keys the program reads (\<open>access_token\<close>,
  \<open>refresh_token\<close>, \<open>exp\<close>, \<open>error\<close>; none of them is inherited from a prototype): a
  \<open>TypeError\<close> on \<open>undefined\<close> and \<open>null\<close>, \<open>undefined\<close> where the property is missing.
\<close>

fun get_prop :: "jsval \<Rightarrow> string \<Rightarrow> error + jsval" where
  "get_prop Undefined k = Inl TypeError"
| "get_prop (Json JNull) k = Inl TypeError"
| "get_prop (Json (JObj kvs)) k = (case map_of kvs k of None \<Rightarrow> Inr Undefined | Some v \<Rightarrow> Inr (Json v))"
| "get_prop v k = Inr Undefined"

text \<open>Assignment \<open>obj[k] = v\<close>: an existing property keeps its place, a new one goes last.\<close>

fun obj_set :: "(string \<times> 'a) list \<Rightarrow> string \<Rightarrow> 'a \<Rightarrow> (string \<times> 'a) list" where
  "obj_set [] k v = [(k, v)]"
| "obj_set ((k', v') # kvs) k v = (if k' = k then (k, v) # kvs else (k', v') # obj_set kvs k v)"

section \<open>Numbers and strings as text\<close>

definition digit_char :: "nat \<Rightarrow> char" where
  "digit_char d = char_of (48 + d)"

fun show_nat :: "nat \<Rightarrow> string" where
  "show_nat n = (if n < 10 then [digit_char n] else show_nat (n div 10) @ [digit_char (n mod 10)])"

declare show_nat.simps [simp del]

definition show_int :: "int \<Rightarrow> string" where
  "show_int i = (if i < 0 then CHR ''-'' # show_nat (nat (- i)) else show_nat (nat i))"

fun join :: "string \<Rightarrow> string list \<Rightarrow> string" where
  "join sep [] = []"
| "join sep [x] = x"
| "join sep (x # y # r) = x @ sep @ join sep (y # r)"

text \<open>
  \<open>ToString\<close>, as a template literal, \<open>new Error\<close> and \<open>URLSearchParams.append\<close> apply it. An
  array joins its elements with a comma (\<open>null\<close> gives the empty string); an object gives
  \<open>[object Object]\<close>, unless a property of its own named \<open>toString\<close> hides the inherited
  method: a JSON value is never callable, and the conversion raises a \<open>TypeError\<close>.
\<close>

fun ToString :: "json \<Rightarrow> error + string"
  and ToString_elements :: "json list \<Rightarrow> error + string list" where
  "ToString JNull = Inr ''null''"
| "ToString (JBool b) = Inr (if b then ''true'' else ''false'')"
| "ToString (JNum n) = Inr (show_int n)"
| "ToString (JStr s) = Inr s"
| "ToString (JArr vs) = (case ToString_elements vs of Inl e \<Rightarrow> Inl e | Inr ss \<Rightarrow> Inr (join '','' ss))"
| "ToString (JObj kvs) =
     (if map_of kvs ''toString'' \<noteq> None then Inl TypeError else Inr ''[object Object]'')"
| "ToString_elements [] = Inr []"
| "ToString_elements (v # vs) =
     (case (if v = JNull then Inr [] else ToString v) of
        Inl e \<Rightarrow> Inl e
      | Inr s \<Rightarrow> (case ToString_elements vs of Inl e \<Rightarrow> Inl e | Inr ss \<Rightarrow> Inr (s # ss)))"

fun js_ToString :: "jsval \<Rightarrow> error + string" where
  "js_ToString Undefined = Inr ''undefined''"
| "js_ToString (Json j) = ToString j"
| "js_ToString (Promise p) = Inr ''[object Promise]''"

text \<open>\<open>new Error(v)\<close>: the message is \<open>ToString(v)\<close>, and empty when \<open>v\<close> is \<open>undefined\<close>.\<close>

definition new_Error :: "jsval \<Rightarrow> error" where
  "new_Error v =
     (if v = Undefined then Error []
      else (case js_ToString v of Inl e \<Rightarrow> e | Inr m \<Rightarrow> Error m))"

text \<open>The order \<open><\<close> of two strings: by code units, a proper prefix first.\<close>

fun str_less :: "string \<Rightarrow> string \<Rightarrow> bool" where
  "str_less [] [] = False"
| "str_less [] (y # ys) = True"
| "str_less (x # xs) [] = False"
| "str_less (x # xs) (y # ys) =
     ((of_char x :: nat) < of_char y \<or> (x = y \<and> str_less xs ys))"

section \<open>JSON.stringify and JSON.parse\<close>

definition hex_char :: "nat \<Rightarrow> char" where
  "hex_char d = (if d < 10 then char_of (48 + d) else char_of (87 + d))"

text \<open>
  \<open>JSON.stringify\<close> quotes a string: the quote and the backslash are escaped, a control
  character is written as its one-letter escape (b, f, n, r, t) or as \<open>u00xx\<close> after a
  backslash, the rest stands as it is.
\<close>

definition escape_char :: "char \<Rightarrow> string" where
  "escape_char c =
     (if c = CHR 0x22 then [CHR 0x5C, CHR 0x22]
      else if c = CHR 0x5C then [CHR 0x5C, CHR 0x5C]
      else if c = CHR 0x08 then [CHR 0x5C, CHR ''b'']
      else if c = CHR 0x0C then [CHR 0x5C, CHR ''f'']
      else if c = CHR 0x0A then [CHR 0x5C, CHR ''n'']
      else if c = CHR 0x0D then [CHR 0x5C, CHR ''r'']
      else if c = CHR 0x09 then [CHR 0x5C, CHR ''t'']
      else if (of_char c :: nat) < 32
        then [CHR 0x5C, CHR ''u'', CHR ''0'', CHR ''0'',
              hex_char (of_char c div 16), hex_char (of_char c mod 16)]
      else [c])"

definition quote :: "string \<Rightarrow> string" where
  "quote s = CHR 0x22 # concat (map escape_char s) @ [CHR 0x22]"

fun JSON_stringify :: "json \<Rightarrow> string"
  and stringify_elements :: "json list \<Rightarrow> string"
  and stringify_members :: "(string \<times> json) list \<Rightarrow> string" where
  "JSON_stringify JNull = ''null''"
| "JSON_stringify (JBool b) = (if b then ''true'' else ''false'')"
| "JSON_stringify (JNum n) = show_int n"
| "JSON_stringify (JStr s) = quote s"
| "JSON_stringify (JArr vs) = CHR ''['' # stringify_elements vs @ '']''"
| "JSON_stringify (JObj kvs) = CHR ''{'' # stringify_members kvs @ ''}''"
| "stringify_elements [] = []"
| "stringify_elements (v # vs) =
     JSON_stringify v @ (if vs = [] then [] else CHR '','' # stringify_elements vs)"
| "stringify_members [] = []"
| "stringify_members ((k, v) # kvs) =
     quote k @ CHR '':'' # JSON_stringify v @
     (if kvs = [] then [] else CHR '','' # stringify_members kvs)"

definition is_ws :: "char \<Rightarrow> bool" where
  "is_ws c = (c = CHR '' '' \<or> c = CHR 0x09 \<or> c = CHR 0x0A \<or> c = CHR 0x0D)"

definition skip_ws :: "string \<Rightarrow> string" where
  "skip_ws s = dropWhile is_ws s"

definition is_digit :: "char \<Rightarrow> bool" where
  "is_digit c = (48 \<le> (of_char c :: nat) \<and> (of_char c :: nat) \<le> 57)"

definition hex_val :: "char \<Rightarrow> nat option" where
  "hex_val c =
     (let n = (of_char c :: nat)
      in if 48 \<le> n \<and> n \<le> 57 then Some (n - 48)
         else if 97 \<le> n \<and> n \<le> 102 then Some (n - 87)
         else if 65 \<le> n \<and> n \<le> 70 then Some (n - 55)
         else None)"

definition hex4 :: "char \<Rightarrow> char \<Rightarrow> char \<Rightarrow> char \<Rightarrow> nat option" where
  "hex4 a b c d =
     (case (hex_val a, hex_val b, hex_val c, hex_val d) of
        (Some w, Some x, Some y, Some z) \<Rightarrow> Some (((w * 16 + x) * 16 + y) * 16 + z)
      | _ \<Rightarrow> None)"

definition unescape :: "char \<Rightarrow> char option" where
  "unescape e =
     (if e = CHR 0x22 then Some (CHR 0x22)
      else if e = CHR 0x5C then Some (CHR 0x5C)
      else if e = CHR ''/'' then Some (CHR ''/'')
      else if e = CHR ''b'' then Some (CHR 0x08)
      else if e = CHR ''f'' then Some (CHR 0x0C)
      else if e = CHR ''n'' then Some (CHR 0x0A)
      else if e = CHR ''r'' then Some (CHR 0x0D)
      else if e = CHR ''t'' then Some (CHR 0x09)
      else None)"

definition cons_char :: "char \<Rightarrow> error + (string \<times> string) \<Rightarrow> error + (string \<times> string)" where
  "cons_char c r = (case r of Inl e \<Rightarrow> Inl e | Inr (s, rest) \<Rightarrow> Inr (c # s, rest))"

text \<open>The characters of a string literal after its opening quote, and the text after it.\<close>

fun parse_chars :: "string \<Rightarrow> error + (string \<times> string)" where
  "parse_chars [] = Inl SyntaxError"
| "parse_chars (c # cs) =
     (if c = CHR 0x22 then Inr ([], cs)
      else if c = CHR 0x5C then
        (case cs of
           [] \<Rightarrow> Inl SyntaxError
         | e # r \<Rightarrow>
             if e = CHR ''u'' then
               (case r of
                  h1 # h2 # h3 # h4 # r' \<Rightarrow>
                    (case hex4 h1 h2 h3 h4 of
                       None \<Rightarrow> Inl SyntaxError
                     | Some n \<Rightarrow>
                         if n < 256 then cons_char (char_of n) (parse_chars r')
                         else Inl Unmodelled)
                | _ \<Rightarrow> Inl SyntaxError)
             else
               (case unescape e of
                  None \<Rightarrow> Inl SyntaxError
                | Some x \<Rightarrow> cons_char x (parse_chars r)))
      else if (of_char c :: nat) < 32 then Inl SyntaxError
      else cons_char c (parse_chars cs))"

definition digits_value :: "string \<Rightarrow> int" where
  "digits_value ds = foldl (\<lambda>a c. 10 * a + (of_char c - 48)) 0 ds"

definition MAX_SAFE_INTEGER :: int where
  "MAX_SAFE_INTEGER = 9007199254740991"

text \<open>A number: an optional minus sign and digits with no leading zero.\<close>

definition parse_number :: "string \<Rightarrow> error + (json \<times> string)" where
  "parse_number s =
     (let neg = (case s of [] \<Rightarrow> False | c # cs \<Rightarrow> c = CHR ''-'');
          s1 = (if neg then tl s else s);
          ds = takeWhile is_digit s1;
          r = dropWhile is_digit s1;
          n = (if neg then - digits_value ds else digits_value ds)
      in case ds of
           [] \<Rightarrow> Inl SyntaxError
         | d # ds' \<Rightarrow>
             if d = CHR ''0'' \<and> ds' \<noteq> [] then Inl SyntaxError
             else if MAX_SAFE_INTEGER < digits_value ds then Inl Unmodelled
             else (case r of
                     [] \<Rightarrow> Inr (JNum n, r)
                   | x # xs \<Rightarrow>
                       if x = CHR ''.'' \<or> x = CHR ''e'' \<or> x = CHR ''E'' then Inl Unmodelled
                       else Inr (JNum n, r)))"

text \<open>An array index as a key (digits with no leading zero): an object enumerates such
  keys first, whatever the order they were written in.\<close>

definition is_index :: "string \<Rightarrow> bool" where
  "is_index k = (case k of [] \<Rightarrow> False | d # ds \<Rightarrow> list_all is_digit k \<and> (d = CHR ''0'' \<longrightarrow> ds = []))"

text \<open>The members of an object literal in the order read: a repeated key keeps its first
  place and its last value.\<close>

definition obj_of_members :: "(string \<times> json) list \<Rightarrow> (string \<times> json) list" where
  "obj_of_members ms = foldl (\<lambda>acc (k, v). obj_set acc k v) [] ms"

text \<open>
  The recursive descent over the text. The first argument bounds the depth of the
  recursion; \<open>JSON_parse\<close> starts it above twice the length of the text, which is never
  reached.
\<close>

fun parse_value :: "nat \<Rightarrow> string \<Rightarrow> error + (json \<times> string)"
  and parse_elements :: "nat \<Rightarrow> string \<Rightarrow> error + (json list \<times> string)"
  and parse_members :: "nat \<Rightarrow> string \<Rightarrow> error + ((string \<times> json) list \<times> string)" where
  "parse_value 0 s = Inl OutOfFuel"
| "parse_value (Suc n) s =
     (case skip_ws s of
        [] \<Rightarrow> Inl SyntaxError
      | c # cs \<Rightarrow>
          if c = CHR ''['' then
            (case skip_ws cs of
               [] \<Rightarrow> Inl SyntaxError
             | d # ds \<Rightarrow>
                 if d = CHR '']'' then Inr (JArr [], ds)
                 else (case parse_elements n cs of
                         Inl e \<Rightarrow> Inl e
                       | Inr (vs, r) \<Rightarrow> Inr (JArr vs, r)))
          else if c = CHR ''{'' then
            (case skip_ws cs of
               [] \<Rightarrow> Inl SyntaxError
             | d # ds \<Rightarrow>
                 if d = CHR ''}'' then Inr (JObj [], ds)
                 else (case parse_members n cs of
                         Inl e \<Rightarrow> Inl e
                       | Inr (ms, r) \<Rightarrow>
                           if list_ex is_index (map fst ms) then Inl Unmodelled
                           else Inr (JObj (obj_of_members ms), r)))
          else if c = CHR 0x22 then
            (case parse_chars cs of
               Inl e \<Rightarrow> Inl e
             | Inr (str, r) \<Rightarrow> Inr (JStr str, r))
          else if c = CHR ''-'' \<or> is_digit c then parse_number (c # cs)
          else if take 4 (c # cs) = ''true'' then Inr (JBool True, drop 4 (c # cs))
          else if take 5 (c # cs) = ''false'' then Inr (JBool False, drop 5 (c # cs))
          else if take 4 (c # cs) = ''null'' then Inr (JNull, drop 4 (c # cs))
          else Inl SyntaxError)"
| "parse_elements 0 s = Inl OutOfFuel"
| "parse_elements (Suc n) s =
     (case parse_value n s of
        Inl e \<Rightarrow> Inl e
      | Inr (v, r) \<Rightarrow>
          (case skip_ws r of
             [] \<Rightarrow> Inl SyntaxError
           | c # cs \<Rightarrow>
               if c = CHR '','' then
                 (case parse_elements n cs of
                    Inl e \<Rightarrow> Inl e
                  | Inr (vs, r') \<Rightarrow> Inr (v # vs, r'))
               else if c = CHR '']'' then Inr ([v], cs)
               else Inl SyntaxError))"
| "parse_members 0 s = Inl OutOfFuel"
| "parse_members (Suc n) s =
     (case skip_ws s of
        [] \<Rightarrow> Inl SyntaxError
      | q # s1 \<Rightarrow>
          if q \<noteq> CHR 0x22 then Inl SyntaxError
          else (case parse_chars s1 of
                  Inl e \<Rightarrow> Inl e
                | Inr (k, s2) \<Rightarrow>
                    (case skip_ws s2 of
                       [] \<Rightarrow> Inl SyntaxError
                     | col # s3 \<Rightarrow>
                         if col \<noteq> CHR '':'' then Inl SyntaxError
                         else (case parse_value n s3 of
                                 Inl e \<Rightarrow> Inl e
                               | Inr (v, r) \<Rightarrow>
                                   (case skip_ws r of
                                      [] \<Rightarrow> Inl SyntaxError
                                    | c # cs \<Rightarrow>
                                        if c = CHR '','' then
                                          (case parse_members n cs of
                                             Inl e \<Rightarrow> Inl e
                                           | Inr (ms, r') \<Rightarrow> Inr ((k, v) # ms, r'))
                                        else if c = CHR ''}'' then Inr ([(k, v)], cs)
                                        else Inl SyntaxError)))))"

definition JSON_parse :: "string \<Rightarrow> error + json" where
  "JSON_parse s =
     (case parse_value (Suc (2 * length s)) s of
        Inl e \<Rightarrow> Inl e
      | Inr (v, r) \<Rightarrow> if skip_ws r = [] then Inr v else Inl SyntaxError)"

section \<open>Bytes: UTF-8, base64url, percent-encoding, SHA-256\<close>

type_synonym byte = "8 word"
type_synonym u32 = "32 word"

text \<open>\<open>Buffer.from(s)\<close> and \<open>hash.update(s)\<close> read a string as UTF-8.\<close>

definition utf8 :: "string \<Rightarrow> byte list" where
  "utf8 s =
     concat (map (\<lambda>c. let n = (of_char c :: nat)
                       in if n < 128 then [of_nat n]
                          else [of_nat (192 + n div 64), of_nat (128 + n mod 64)]) s)"

text \<open>The encoding \<open>base64url\<close> of Node: the URL-safe alphabet, no padding.\<close>

definition b64url_char :: "nat \<Rightarrow> char" where
  "b64url_char i =
     (if i < 26 then char_of (65 + i)
      else if i < 52 then char_of (71 + i)
      else if i < 62 then char_of (i - 4)
      else if i = 62 then CHR ''-''
      else CHR ''_'')"

fun base64url :: "byte list \<Rightarrow> string" where
  "base64url (a # b # c # r) =
     (let n = unat a * 65536 + unat b * 256 + unat c
      in [b64url_char (n div 262144), b64url_char (n div 4096 mod 64),
          b64url_char (n div 64 mod 64), b64url_char (n mod 64)] @ base64url r)"
| "base64url [a, b] =
     (let n = unat a * 65536 + unat b * 256
      in [b64url_char (n div 262144), b64url_char (n div 4096 mod 64),
          b64url_char (n div 64 mod 64)])"
| "base64url [a] =
     (let n = unat a * 65536
      in [b64url_char (n div 262144), b64url_char (n div 4096 mod 64)])"
| "base64url [] = []"

text \<open>The encoding of RFC 4648, section 5, with its padding: the text is completed with
  \<open>=\<close> to a multiple of four characters.\<close>

fun base64url_padded :: "byte list \<Rightarrow> string" where
  "base64url_padded (a # b # c # r) =
     (let n = unat a * 65536 + unat b * 256 + unat c
      in [b64url_char (n div 262144), b64url_char (n div 4096 mod 64),
          b64url_char (n div 64 mod 64), b64url_char (n mod 64)] @ base64url_padded r)"
| "base64url_padded [a, b] =
     (let n = unat a * 65536 + unat b * 256
      in [b64url_char (n div 262144), b64url_char (n div 4096 mod 64),
          b64url_char (n div 64 mod 64), CHR ''=''])"
| "base64url_padded [a] =
     (let n = unat a * 65536
      in [b64url_char (n div 262144), b64url_char (n div 4096 mod 64), CHR ''='', CHR ''=''])"
| "base64url_padded [] = []"

definition hex_upper :: "nat \<Rightarrow> char" where
  "hex_upper d = (if d < 10 then char_of (48 + d) else char_of (55 + d))"

definition pct_byte :: "byte \<Rightarrow> string" where
  "pct_byte b = [CHR ''%'', hex_upper (unat b div 16), hex_upper (unat b mod 16)]"

definition is_alnum :: "char \<Rightarrow> bool" where
  "is_alnum c =
     (let n = (of_char c :: nat)
      in (48 \<le> n \<and> n \<le> 57) \<or> (65 \<le> n \<and> n \<le> 90) \<or> (97 \<le> n \<and> n \<le> 122))"

definition encodeURIComponent :: "string \<Rightarrow> string" where
  "encodeURIComponent s =
     concat (map (\<lambda>c. if is_alnum c \<or> c \<in> set ''-_.!~*()'' \<or> c = CHR 0x27 then [c]
                       else concat (map pct_byte (utf8 [c]))) s)"

text \<open>\<open>URLSearchParams.toString()\<close>: names and values in the form encoding, joined by
  \<open>=\<close> and \<open>&\<close>.\<close>

definition form_encode :: "string \<Rightarrow> string" where
  "form_encode s =
     concat (map (\<lambda>c. if c = CHR '' '' then ''+''
                       else if is_alnum c \<or> c \<in> set ''*-._'' then [c]
                       else concat (map pct_byte (utf8 [c]))) s)"

definition params_toString :: "(string \<times> string) list \<Rightarrow> string" where
  "params_toString ps = join ''&'' (map (\<lambda>(k, v). form_encode k @ ''='' @ form_encode v) ps)"

text \<open>SHA-256 (FIPS 180-4), which \<open>createHash('sha256')\<close> computes.\<close>

definition K256 :: "u32 list" where
  "K256 =
    [0x428A2F98, 0x71374491, 0xB5C0FBCF, 0xE9B5DBA5, 0x3956C25B, 0x59F111F1, 0x923F82A4, 0xAB1C5ED5,
     0xD807AA98, 0x12835B01, 0x243185BE, 0x550C7DC3, 0x72BE5D74, 0x80DEB1FE, 0x9BDC06A7, 0xC19BF174,
     0xE49B69C1, 0xEFBE4786, 0x0FC19DC6, 0x240CA1CC, 0x2DE92C6F, 0x4A7484AA, 0x5CB0A9DC, 0x76F988DA,
     0x983E5152, 0xA831C66D, 0xB00327C8, 0xBF597FC7, 0xC6E00BF3, 0xD5A79147, 0x06CA6351, 0x14292967,
     0x27B70A85, 0x2E1B2138, 0x4D2C6DFC, 0x53380D13, 0x650A7354, 0x766A0ABB, 0x81C2C92E, 0x92722C85,
     0xA2BFE8A1, 0xA81A664B, 0xC24B8B70, 0xC76C51A3, 0xD192E819, 0xD6990624, 0xF40E3585, 0x106AA070,
     0x19A4C116, 0x1E376C08, 0x2748774C, 0x34B0BCB5, 0x391C0CB3, 0x4ED8AA4A, 0x5B9CCA4F, 0x682E6FF3,
     0x748F82EE, 0x78A5636F, 0x84C87814, 0x8CC70208, 0x90BEFFFA, 0xA4506CEB, 0xBEF9A3F7, 0xC67178F2]"

definition H256 :: "u32 list" where
  "H256 =
    [0x6A09E667, 0xBB67AE85, 0x3C6EF372, 0xA54FF53A, 0x510E527F, 0x9B05688C, 0x1F83D9AB, 0x5BE0CD19]"

definition rotr :: "nat \<Rightarrow> u32 \<Rightarrow> u32" where
  "rotr n x = word_rotr n x"

definition Ch :: "u32 \<Rightarrow> u32 \<Rightarrow> u32 \<Rightarrow> u32" where
  "Ch x y z = (x AND y) XOR (NOT x AND z)"

definition Maj :: "u32 \<Rightarrow> u32 \<Rightarrow> u32 \<Rightarrow> u32" where
  "Maj x y z = (x AND y) XOR (x AND z) XOR (y AND z)"

definition bsig0 :: "u32 \<Rightarrow> u32" where
  "bsig0 x = rotr 2 x XOR rotr 13 x XOR rotr 22 x"

definition bsig1 :: "u32 \<Rightarrow> u32" where
  "bsig1 x = rotr 6 x XOR rotr 11 x XOR rotr 25 x"

definition ssig0 :: "u32 \<Rightarrow> u32" where
  "ssig0 x = rotr 7 x XOR rotr 18 x XOR drop_bit 3 x"

definition ssig1 :: "u32 \<Rightarrow> u32" where
  "ssig1 x = rotr 17 x XOR rotr 19 x XOR drop_bit 10 x"

definition be64 :: "64 word \<Rightarrow> byte list" where
  "be64 w = map (\<lambda>i. ucast (drop_bit (8 * (7 - i)) w)) [0..<8]"

definition sha_pad :: "byte list \<Rightarrow> byte list" where
  "sha_pad m =
     m @ [0x80] @ replicate ((119 - length m mod 64) mod 64) 0 @ be64 (of_nat (8 * length m))"

fun be_words :: "byte list \<Rightarrow> u32 list" where
  "be_words (a # b # c # d # r) =
     (push_bit 24 (ucast a) OR push_bit 16 (ucast b) OR push_bit 8 (ucast c) OR ucast d) # be_words r"
| "be_words r = []"

fun schedule :: "nat \<Rightarrow> u32 list \<Rightarrow> u32 list" where
  "schedule 0 w = w"
| "schedule (Suc k) w =
     (let t = length w
      in schedule k (w @ [ssig1 (w ! (t - 2)) + w ! (t - 7) + ssig0 (w ! (t - 15)) + w ! (t - 16)]))"

definition sha_round :: "u32 list \<Rightarrow> u32 \<times> u32 \<Rightarrow> u32 list" where
  "sha_round s kw =
     (case s of
        [a, b, c, d, e, f, g, h] \<Rightarrow>
          (let t1 = h + bsig1 e + Ch e f g + fst kw + snd kw;
               t2 = bsig0 a + Maj a b c
           in [t1 + t2, a, b, c, d + t1, e, f, g])
      | _ \<Rightarrow> s)"

definition compress :: "u32 list \<Rightarrow> byte list \<Rightarrow> u32 list" where
  "compress hs block = map2 (+) hs (foldl sha_round hs (zip K256 (schedule 48 (be_words block))))"

fun blocks :: "nat \<Rightarrow> byte list \<Rightarrow> byte list list" where
  "blocks 0 bs = []"
| "blocks (Suc n) bs = take 64 bs # blocks n (drop 64 bs)"

definition be32 :: "u32 \<Rightarrow> byte list" where
  "be32 w = [ucast (drop_bit 24 w), ucast (drop_bit 16 w), ucast (drop_bit 8 w), ucast w]"

definition sha256 :: "byte list \<Rightarrow> byte list" where
  "sha256 m =
     (let p = sha_pad m
      in concat (map be32 (foldl compress H256 (blocks (length p div 64) p))))"

section \<open>The environment of the program\<close>

text \<open>
  An HTTP response as the program reads it: \<open>content_type\<close> is
  \<open>rsp.headers.get('content-type')\<close> (\<open>None\<close> for \<open>null\<close>), \<open>body\<close> the text of the body;
  \<open>rsp.json()\<close> is \<open>JSON.parse\<close> of that text and \<open>rsp.ok\<close> holds for a status from 200 to 299.
\<close>

record response =
  status :: nat
  statusText :: string
  content_type :: "string option"
  body :: string

definition ok :: "response \<Rightarrow> bool" where
  "ok rsp = (200 \<le> status rsp \<and> status rsp < 300)"

record http_request =
  url :: string
  req_method :: string
  headers :: "(string \<times> string) list"
  req_body :: "string option"
  agent :: "string option"

text \<open>A query parameter as \<open>nodeUrl.parse(url, true).query\<close> gives it: missing, one string,
  or the array of the strings of a repeated parameter.\<close>

datatype qval = QUndef | QStr string | QArr "string list"

fun truthy_q :: "qval \<Rightarrow> bool" where
  "truthy_q QUndef = False"
| "truthy_q (QStr s) = (s \<noteq> [])"
| "truthy_q (QArr ss) = True"

fun q_ToString :: "qval \<Rightarrow> string" where
  "q_ToString QUndef = ''undefined''"
| "q_ToString (QStr s) = s"
| "q_ToString (QArr ss) = join '','' ss"

text \<open>What reaches the local listener: a request with its \<open>req.url\<close> (\<open>None\<close> for
  \<open>undefined\<close>), or an \<open>error\<close> event of the server.\<close>

datatype srv_event = Request "string option" | SrvError string

text \<open>
  What the program does not compute itself is a field of the environment: the clock
  (\<open>new Date().getTime() / 1000\<close>, rounded by \<open>toFixed(0)\<close>), the packages \<open>jwt-decode\<close>,
  \<open>node-fetch\<close> and \<open>randomstring\<close>, the variable \<open>HTTP_PROXY\<close>, and the parser of \<open>node:url\<close>:
  \<open>url_parse u\<close> is \<open>nodeUrl.parse(u, true).query\<close>, the query as a function of the
  parameter's name, or what the parser raised on a URL it refuses.

  \<open>incoming\<close> holds the events that reach the listener, in the turns of the event loop that
  deliver them, from \<open>server.listen\<close> until the token endpoint has answered: the requests
  read from a connection in one piece come in one turn, and a suspended function resumes
  between two turns only.
\<close>

type_synonym query = "string \<Rightarrow> qval"

record env =
  now :: int
  jwtDecode :: "jsval \<Rightarrow> error + json"
  fetch :: "http_request \<Rightarrow> error + response"
  randomstring :: "nat \<Rightarrow> string"
  HTTP_PROXY :: "string option"
  url_parse :: "string \<Rightarrow> error + query"
  incoming :: "srv_event list list"

text \<open>The effects of the program, in the order it performs them. \<open>Respond s b\<close> is
  \<open>rsp.end(b)\<close> on the listener: \<open>statusCode\<close> is never set and keeps Node's default 200.\<close>

datatype effect =
    Fetch http_request
  | Exec string
  | Listen nat
  | ServerClose
  | Respond nat string
  | ConsoleLog string
  | ConsoleError response

text \<open>The state: the content of the file \<open>.eve_oauth_cache\<close> (\<open>None\<close> when it does not
  exist) and the effects so far.\<close>

record world =
  cache :: "string option"
  trace :: "effect list"

definition emit :: "effect \<Rightarrow> world \<Rightarrow> world" where
  "emit e w = w\<lparr>trace := trace w @ [e]\<rparr>"

text \<open>
  How a call of an \<open>async\<close> function ends: with a value, with a failure, or never
  (\<open>Pending\<close>). \<open>Uncaught e\<close> is the end of the process itself: a listener raised \<open>e\<close>, an
  exception out of a listener reaches no handler of the program, and Node then prints it
  and exits.
\<close>

datatype outcome = Returned jsval | Threw error | Pending | Uncaught error

section \<open>oauth.mjs\<close>

record config =
  host :: "string option"
  redirect_uri :: string
  client_id :: string
  scope :: string

definition proxy_agent :: "env \<Rightarrow> string option" where
  "proxy_agent env = (case HTTP_PROXY env of None \<Rightarrow> None | Some p \<Rightarrow> if p \<noteq> [] then Some p else None)"

definition generateCodeVerifier :: "env \<Rightarrow> string" where
  "generateCodeVerifier env = base64url (utf8 (randomstring env 32))"

definition generateCodeChallenge :: "string \<Rightarrow> string" where
  "generateCodeChallenge code_verifier = base64url (sha256 (utf8 code_verifier))"

definition openUrl :: "string \<Rightarrow> world \<Rightarrow> world" where
  "openUrl u w = emit (Exec (''start '' @ [CHR 0x22, CHR 0x22, CHR '' '', CHR 0x22] @ u @ [CHR 0x22])) w"

text \<open>
  \<open>now < jwt.exp\<close>: \<open>now\<close> is the string \<open>toFixed(0)\<close> returns. Against a number, a
  boolean or \<open>null\<close> the comparison is numeric, against a string it is the order of
  strings, and an array or an object is first converted to a string.
\<close>

definition now_less :: "int \<Rightarrow> jsval \<Rightarrow> error + bool" where
  "now_less n v =
     (case v of
        Undefined \<Rightarrow> Inr False
      | Json (JNum e) \<Rightarrow> Inr (n < e)
      | Json (JBool b) \<Rightarrow> Inr (n < (if b then 1 else 0))
      | Json JNull \<Rightarrow> Inr (n < 0)
      | _ \<Rightarrow> (case js_ToString v of Inl e \<Rightarrow> Inl e | Inr s \<Rightarrow> Inr (str_less (show_int n) s)))"

text \<open>
  \<open>validateJwt\<close> is an \<open>async\<close> function: a call returns a promise, fulfilled with
  \<open>false\<close>, \<open>true\<close> or \<open>undefined\<close> (the function ends without \<open>return\<close> when the token
  has expired), or rejected with what \<open>jwtDecode\<close> raised. Nothing awaits that promise:
  how Node reports a rejection that is never handled is outside the model.
\<close>

definition validateJwt :: "env \<Rightarrow> jsval \<Rightarrow> jsval" where
  "validateJwt env access_token =
     Promise
       (case jwtDecode env access_token of
          Inl e \<Rightarrow> Rejected e
        | Inr jwt \<Rightarrow>
            if \<not> truthy (Json jwt) then Fulfilled (Json (JBool False))
            else (case get_prop (Json jwt) ''exp'' of
                    Inl e \<Rightarrow> Rejected e
                  | Inr ex \<Rightarrow>
                      if \<not> truthy ex then Fulfilled (Json (JBool False))
                      else (case now_less (now env) ex of
                              Inl e \<Rightarrow> Rejected e
                            | Inr lt \<Rightarrow>
                                if lt then Fulfilled (Json (JBool True)) else Fulfilled Undefined)))"

definition saveTokenToCache :: "json \<Rightarrow> world \<Rightarrow> world" where
  "saveTokenToCache token w = w\<lparr>cache := Some (JSON_stringify token)\<rparr>"

definition token_endpoint :: string where
  "token_endpoint = ''https://login.eveonline.com/v2/oauth/token''"

definition refreshAccessToken :: "env \<Rightarrow> config \<Rightarrow> jsval \<Rightarrow> world \<Rightarrow> jsval \<times> world" where
  "refreshAccessToken env config refresh_oken w =
     (case js_ToString refresh_oken of
        Inl e \<Rightarrow> (Promise (Rejected e), w)
      | Inr rt \<Rightarrow>
          (let req = \<lparr>url = token_endpoint, req_method = ''POST'',
                      headers = [(''Content-Type'', ''application/x-www-form-urlencoded''),
                                 (''Host'', ''login.eveonline.com'')],
                      req_body = Some (''grant_type=refresh_token&refresh_token='' @ rt @
                                       ''&client_id='' @ client_id config),
                      agent = None\<rparr>;
               w1 = emit (Fetch req) w
           in case fetch env req of
                Inl e \<Rightarrow> (Promise (Rejected e), w1)
              | Inr rsp \<Rightarrow>
                  (case JSON_parse (body rsp) of
                     Inl e \<Rightarrow> (Promise (Rejected e), w1)
                   | Inr rspJson \<Rightarrow>
                       (Promise (Fulfilled (Json rspJson)), saveTokenToCache rspJson w1))))"

text \<open>
  \<open>getTokenFromCache\<close> is not \<open>async\<close> and does not await \<open>validateJwt\<close>: the condition
  of its \<open>if\<close> is the promise itself.
\<close>

definition getTokenFromCache :: "env \<Rightarrow> config \<Rightarrow> world \<Rightarrow> (error + jsval) \<times> world" where
  "getTokenFromCache env config w =
     (case cache w of
        None \<Rightarrow> (Inr Undefined, w)
      | Some v \<Rightarrow>
          if length v = 0 then (Inr Undefined, w)
          else (case JSON_parse v of
                  Inl e \<Rightarrow> (Inl e, w)
                | Inr json \<Rightarrow>
                    (case (if truthy (Json json) then get_prop (Json json) ''access_token''
                           else Inr (Json json)) of
                       Inl e \<Rightarrow> (Inl e, w)
                     | Inr c \<Rightarrow>
                         if truthy c then
                           (case get_prop (Json json) ''access_token'' of
                              Inl e \<Rightarrow> (Inl e, w)
                            | Inr access_token \<Rightarrow>
                                if truthy (validateJwt env access_token) then (Inr (Json json), w)
                                else (case get_prop (Json json) ''refresh_token'' of
                                        Inl e \<Rightarrow> (Inl e, w)
                                      | Inr refresh_token \<Rightarrow>
                                          if truthy refresh_token then
                                            (case refreshAccessToken env config refresh_token w of
                                               (p, w') \<Rightarrow> (Inr p, w'))
                                          else (Inr Undefined, w)))
                         else (Inr Undefined, w))))"

text \<open>The listener of \<open>requestByNative\<close>. \<open>resolve\<close> and \<open>reject\<close> settle a promise once:
  on a settled promise they do nothing.\<close>

type_synonym promise = "qval settled option"

definition settle :: "'a settled option \<Rightarrow> 'a settled \<Rightarrow> 'a settled option" where
  "settle p x = (case p of None \<Rightarrow> Some x | Some y \<Rightarrow> Some y)"

text \<open>
  The handler of \<open>request\<close> (lines 139 to 156). Nothing catches what \<open>nodeUrl.parse\<close>
  raises: the handler then ends with that exception (\<open>Inl\<close>), before it has answered and
  before it has touched the promise.
\<close>

definition on_request ::
  "env \<Rightarrow> string \<Rightarrow> string option \<Rightarrow> promise \<times> world \<Rightarrow> error + promise \<times> world" where
  "on_request env state req_url pw =
     (case pw of
        (p, w) \<Rightarrow>
          (case req_url of
             None \<Rightarrow> Inr (p, emit (Respond 200 []) (emit (ConsoleLog ''req.url is empty'') w))
           | Some u \<Rightarrow>
               if u = [] then Inr (p, emit (Respond 200 []) (emit (ConsoleLog ''req.url is empty'') w))
               else (case url_parse env u of
                       Inl e \<Rightarrow> Inl e
                     | Inr query \<Rightarrow>
                         if query ''state'' \<noteq> QStr state then Inr (p, emit (Respond 200 []) w)
                         else if \<not> truthy_q (query ''code'') then Inr (p, emit (Respond 200 []) w)
                         else Inr (settle p (Fulfilled (query ''code'')),
                                   emit (Respond 200 ''oauth success!'') w))))"

definition on_event ::
  "env \<Rightarrow> string \<Rightarrow> srv_event \<Rightarrow> promise \<times> world \<Rightarrow> error + promise \<times> world" where
  "on_event env state ev pw =
     (case ev of
        Request req_url \<Rightarrow> on_request env state req_url pw
      | SrvError err \<Rightarrow> Inr (settle (fst pw) (Rejected (ServerError err)), snd pw))"

text \<open>
  One turn of the event loop: every event of the turn goes to its handler, in order,
  whether the promise is settled or not (the handlers are never removed). The turn ends
  early only when a handler raises: the result is then the exception and the state in
  which it was raised.
\<close>

fun turn ::
  "env \<Rightarrow> string \<Rightarrow> srv_event list \<Rightarrow> promise \<times> world \<Rightarrow> error \<times> world + promise \<times> world" where
  "turn env state [] pw = Inr pw"
| "turn env state (ev # evs) pw =
     (case on_event env state ev pw of
        Inl e \<Rightarrow> Inl (e, snd pw)
      | Inr pw' \<Rightarrow> turn env state evs pw')"

fun turns ::
  "env \<Rightarrow> string \<Rightarrow> srv_event list list \<Rightarrow> promise \<times> world \<Rightarrow> error \<times> world + promise \<times> world" where
  "turns env state [] pw = Inr pw"
| "turns env state (t # ts) pw =
     (case turn env state t pw of
        Inl d \<Rightarrow> Inl d
      | Inr pw' \<Rightarrow> turns env state ts pw')"

text \<open>
  \<open>await codePromise\<close>: the function resumes after the first turn that leaves the promise
  settled, with what settled it and the turns still to come (\<open>Resumed\<close>). When the turns end
  and the promise is still pending the function never resumes (\<open>Waiting\<close>); when a handler
  raises, the process ends (\<open>Died\<close>).
\<close>

datatype waited =
    Resumed "qval settled" world "srv_event list list"
  | Waiting world
  | Died error world

fun await_code :: "env \<Rightarrow> string \<Rightarrow> srv_event list list \<Rightarrow> world \<Rightarrow> waited" where
  "await_code env state [] w = Waiting w"
| "await_code env state (t # ts) w =
     (case turn env state t (None, w) of
        Inl (e, w') \<Rightarrow> Died e w'
      | Inr (None, w') \<Rightarrow> await_code env state ts w'
      | Inr (Some x, w') \<Rightarrow> Resumed x w' ts)"

definition authorize_url :: "config \<Rightarrow> string \<Rightarrow> string \<Rightarrow> string" where
  "authorize_url config code_challenge state =
     (case host config of None \<Rightarrow> ''https://login.eveonline.com''
      | Some h \<Rightarrow> if h \<noteq> [] then h else ''https://login.eveonline.com'')
     @ ''/v2/oauth/authorize/''
     @ ''?response_type=code''
     @ ''&redirect_uri='' @ encodeURIComponent (redirect_uri config)
     @ ''&client_id='' @ client_id config
     @ ''&scope='' @ encodeURIComponent (scope config)
     @ ''&code_challenge='' @ code_challenge
     @ ''&code_challenge_method=S256''
     @ ''&state='' @ state"

definition exchange_request :: "env \<Rightarrow> config \<Rightarrow> qval \<Rightarrow> string \<Rightarrow> http_request" where
  "exchange_request env config code code_verifier =
     \<lparr>url = token_endpoint, req_method = ''POST'',
      headers = [(''Content-Type'', ''application/x-www-form-urlencoded''),
                 (''Host'', ''login.eveonline.com''),
                 (''User-Agent'', ''esi client 0.0.1'')],
      req_body = Some (''grant_type=authorization_code''
                       @ ''&client_id='' @ client_id config
                       @ ''&code='' @ q_ToString code
                       @ ''&code_verifier='' @ code_verifier),
      agent = proxy_agent env\<rparr>"

text \<open>
  Lines 165 to 185, the exchange of the code for the tokens: \<open>exchange_send\<close> is the call
  of \<open>fetch\<close>, \<open>exchange_receive\<close> what follows once the token endpoint has answered, and
  \<open>exchange\<close> the two when no event reaches the listener in between.
\<close>

definition exchange_send :: "env \<Rightarrow> config \<Rightarrow> qval \<Rightarrow> string \<Rightarrow> world \<Rightarrow> world" where
  "exchange_send env config code code_verifier w =
     emit (Fetch (exchange_request env config code code_verifier)) w"

definition exchange_receive :: "env \<Rightarrow> config \<Rightarrow> qval \<Rightarrow> string \<Rightarrow> world \<Rightarrow> outcome \<times> world" where
  "exchange_receive env config code code_verifier w1 =
     (case fetch env (exchange_request env config code code_verifier) of
        Inl e \<Rightarrow> (Threw e, w1)
      | Inr rsp \<Rightarrow>
          if status rsp \<noteq> 200 then (Threw (Error (statusText rsp)), emit (ConsoleError rsp) w1)
          else (case JSON_parse (body rsp) of
                  Inl e \<Rightarrow> (Threw e, w1)
                | Inr rspJson \<Rightarrow> (Returned (Json rspJson), saveTokenToCache rspJson w1)))"

definition exchange :: "env \<Rightarrow> config \<Rightarrow> qval \<Rightarrow> string \<Rightarrow> world \<Rightarrow> outcome \<times> world" where
  "exchange env config code code_verifier w =
     exchange_receive env config code code_verifier (exchange_send env config code code_verifier w)"

text \<open>\<open>return token\<close> in an \<open>async\<close> function: a returned promise is followed.\<close>

definition async_return :: "jsval \<Rightarrow> outcome" where
  "async_return v =
     (case v of
        Promise (Fulfilled x) \<Rightarrow> Returned x
      | Promise (Rejected e) \<Rightarrow> Threw e
      | _ \<Rightarrow> Returned v)"

text \<open>
  \<open>requestByNative\<close>. Once the code has arrived the function closes the server and calls
  \<open>fetch\<close> at once; the turns that come after that are handled while the request to the
  token endpoint is under way, by the handlers that are still registered.
\<close>

definition requestByNative :: "env \<Rightarrow> config \<Rightarrow> world \<Rightarrow> outcome \<times> world" where
  "requestByNative env config w =
     (case getTokenFromCache env config w of
        (Inl e, w1) \<Rightarrow> (Threw e, w1)
      | (Inr token, w1) \<Rightarrow>
          if token \<noteq> Undefined \<and> token \<noteq> Json JNull then (async_return token, w1)
          else
            (let code_verifier = generateCodeVerifier env;
                 code_challenge = generateCodeChallenge code_verifier;
                 state = randomstring env 10;
                 w2 = openUrl (authorize_url config code_challenge state) (emit (Listen 3001) w1)
             in case await_code env state (incoming env) w2 of
                  Waiting w3 \<Rightarrow> (Pending, w3)
                | Died e w3 \<Rightarrow> (Uncaught e, w3)
                | Resumed (Rejected e) w3 rest \<Rightarrow> (Threw e, w3)
                | Resumed (Fulfilled code) w3 rest \<Rightarrow>
                    (case turns env state rest
                            (Some (Fulfilled code),
                             exchange_send env config code code_verifier (emit ServerClose w3)) of
                       Inl (e, w4) \<Rightarrow> (Uncaught e, w4)
                     | Inr (p, w4) \<Rightarrow> exchange_receive env config code code_verifier w4)))"
section \<open>The ESI client\<close>

text \<open>The argument of the constructor (\<open>None\<close> for a property that is not given) and the
  \<open>options\<close> it stores.\<close>

record esi_options =
  opt_baseURL :: "string option"
  opt_version :: "string option"
  opt_token :: "string option"
  opt_language :: "string option"
  opt_datasource :: "string option"

record client_options =
  baseURL :: string
  version :: string
  token :: "string option"
  language :: string
  datasource :: string

definition or_default :: "string option \<Rightarrow> string \<Rightarrow> string" where
  "or_default v d = (case v of None \<Rightarrow> d | Some s \<Rightarrow> if s \<noteq> [] then s else d)"

definition ESIClient :: "esi_options option \<Rightarrow> client_options" where
  "ESIClient options =
     (let opts = (case options of
                    None \<Rightarrow> \<lparr>opt_baseURL = None, opt_version = None, opt_token = None,
                              opt_language = None, opt_datasource = None\<rparr>
                  | Some o' \<Rightarrow> o')
      in \<lparr>baseURL = or_default (opt_baseURL opts) ''https://esi.evetech.net'',
          version = or_default (opt_version opts) ''latest'',
          token = opt_token opts,
          language = or_default (opt_language opts) ''zh'',
          datasource = ''tranquility''\<rparr>)"

text \<open>The argument \<open>init\<close> of \<open>request\<close>; \<open>init_params\<close> lists the properties of
  \<open>init.params\<close> in the order \<open>for ... in\<close> visits them.\<close>

record init =
  init_method :: "string option"
  init_params :: "(string \<times> jsval) list option"
  init_headers :: "(string \<times> string) list option"
  init_body :: "string option"

definition no_init :: init where
  "no_init = \<lparr>init_method = None, init_params = None, init_headers = None, init_body = None\<rparr>"

definition request_headers :: "client_options \<Rightarrow> init \<Rightarrow> (string \<times> string) list" where
  "request_headers this i =
     (let h0 = [(''accept'', ''application/json''), (''cache-control'', ''no-cache''),
                (''accept-language'', language this)];
          h1 = (case init_headers i of
                  None \<Rightarrow> h0
                | Some hs \<Rightarrow> foldl (\<lambda>acc (k, v). obj_set acc k v) h0 hs)
      in case token this of
           None \<Rightarrow> h1
         | Some t \<Rightarrow> if t \<noteq> [] then obj_set h1 ''authorization'' (''Bearer '' @ t) else h1)"

text \<open>The loop over \<open>init.params\<close>: a falsy value is skipped, another one is appended as a
  string.\<close>

fun append_params ::
  "(string \<times> jsval) list \<Rightarrow> (string \<times> string) list \<Rightarrow> error + (string \<times> string) list" where
  "append_params [] params = Inr params"
| "append_params ((k, v) # kvs) params =
     (if truthy v then
        (case js_ToString v of
           Inl e \<Rightarrow> Inl e
         | Inr s \<Rightarrow> append_params kvs (params @ [(k, s)]))
      else append_params kvs params)"

definition request_params :: "client_options \<Rightarrow> init \<Rightarrow> error + (string \<times> string) list" where
  "request_params this i =
     (let params = [(''datasource'', datasource this)]
      in case init_params i of
           None \<Rightarrow> Inr params
         | Some kvs \<Rightarrow> append_params kvs params)"

definition build_request ::
  "env \<Rightarrow> client_options \<Rightarrow> string \<Rightarrow> init \<Rightarrow> error + http_request" where
  "build_request env this path i =
     (case request_params this i of
        Inl e \<Rightarrow> Inl e
      | Inr params \<Rightarrow>
          Inr \<lparr>url = baseURL this @ ''/'' @ version this @ path @ ''?'' @ params_toString params,
               req_method = or_default (init_method i) ''GET'',
               headers = request_headers this i,
               req_body = (case init_body i of None \<Rightarrow> None
                           | Some b \<Rightarrow> if b \<noteq> [] then Some b else None),
               agent = proxy_agent env\<rparr>)"

definition JSON_UTF8 :: string where
  "JSON_UTF8 = ''application/json; charset=UTF-8''"

text \<open>Lines 282 to 296: the body is read first, then the status is looked at.\<close>

definition read_response :: "response \<Rightarrow> error + jsval" where
  "read_response rsp =
     (case (if content_type rsp = Some JSON_UTF8
            then (case JSON_parse (body rsp) of Inl e \<Rightarrow> Inl e | Inr j \<Rightarrow> Inr (Json j))
            else Inr (Json (JStr (body rsp)))) of
        Inl e \<Rightarrow> Inl e
      | Inr rspBody \<Rightarrow>
          if \<not> ok rsp then
            (if content_type rsp = Some JSON_UTF8 then
               (case get_prop rspBody ''error'' of
                  Inl e \<Rightarrow> Inl e
                | Inr err \<Rightarrow> Inl (new_Error err))
             else Inl (new_Error rspBody))
          else Inr rspBody)"

definition request :: "env \<Rightarrow> client_options \<Rightarrow> string \<Rightarrow> init option \<Rightarrow> error + jsval" where
  "request env this path init_arg =
     (let i = (case init_arg of None \<Rightarrow> no_init | Some i' \<Rightarrow> i')
      in case build_request env this path i of
           Inl e \<Rightarrow> Inl e
         | Inr req \<Rightarrow>
             (case fetch env req of
                Inl e \<Rightarrow> Inl e
              | Inr rsp \<Rightarrow> read_response rsp))"

section \<open>Concrete inputs\<close>

text \<open>
  Inputs at which the theorems below are instantiated. \<open>plain_query\<close> reads the query of a
  URL without escapes: the parameters after the first \<open>?\<close>, split at \<open>&\<close> and \<open>=\<close>.
  \<open>plain_parse\<close> is a parser that refuses a request target in absolute form whose host opens
  a bracket and never closes it, as \<open>node:url\<close> refuses \<open>http://[::1/cb\<close> with
  \<open>ERR_INVALID_URL\<close>, a \<open>TypeError\<close>, and reads the query of every other target.
\<close>

fun split_on :: "char \<Rightarrow> string \<Rightarrow> string list" where
  "split_on sep [] = [[]]"
| "split_on sep (c # cs) =
     (if c = sep then [] # split_on sep cs
      else (case split_on sep cs of [] \<Rightarrow> [[c]] | x # xs \<Rightarrow> (c # x) # xs))"

definition plain_query :: "string \<Rightarrow> string \<Rightarrow> qval" where
  "plain_query u k =
     (let q = drop 1 (dropWhile (\<lambda>c. c \<noteq> CHR ''?'') u);
          pairs = map (\<lambda>p. (takeWhile (\<lambda>c. c \<noteq> CHR ''='') p,
                             drop 1 (dropWhile (\<lambda>c. c \<noteq> CHR ''='') p))) (split_on (CHR ''&'') q);
          vs = map snd (filter (\<lambda>kv. fst kv = k) pairs)
      in case vs of [] \<Rightarrow> QUndef | [v] \<Rightarrow> QStr v | _ \<Rightarrow> QArr vs)"

definition authority :: "string \<Rightarrow> string" where
  "authority u = takeWhile (\<lambda>c. c \<noteq> CHR ''/'') (drop 2 (dropWhile (\<lambda>c. c \<noteq> CHR ''/'') u))"

definition plain_parse :: "string \<Rightarrow> error + query" where
  "plain_parse u =
     (if take 1 u \<noteq> ''/'' \<and> CHR ''['' \<in> set (authority u) \<and> CHR '']'' \<notin> set (authority u)
      then Inl TypeError else Inr (plain_query u))"

definition config0 :: config where
  "config0 = \<lparr>host = None, redirect_uri = ''http://localhost:3001/'', client_id = ''abc'',
              scope = ''esi-markets.structure_markets.v1''\<rparr>"

definition token_body :: string where
  "token_body = ''{\"access_token\":\"new\",\"token_type\":\"Bearer\",\"expires_in\":1199,\"refresh_token\":\"r2\"}''"

definition response0 :: "nat \<Rightarrow> string \<Rightarrow> response" where
  "response0 s t = \<lparr>status = s, statusText = t, content_type = Some JSON_UTF8, body = token_body\<rparr>"

text \<open>An environment whose clock shows 2000, where every token decodes to the claims
  \<open>{exp: 1000}\<close>, the random strings are cut from \<open>abcDEF1234abcDEF1234...\<close>, the token
  endpoint answers \<open>rsp\<close>, and the events arrive in the turns \<open>evs\<close>.\<close>

definition env0 :: "response \<Rightarrow> srv_event list list \<Rightarrow> env" where
  "env0 rsp evs =
     \<lparr>now = 2000,
      jwtDecode = (\<lambda>t. Inr (JObj [(''exp'', JNum 1000)])),
      fetch = (\<lambda>req. Inr rsp),
      randomstring = (\<lambda>n. take n (concat (replicate n ''abcDEF1234''))),
      HTTP_PROXY = None,
      url_parse = plain_parse,
      incoming = evs\<rparr>"

definition world0 :: "string option \<Rightarrow> world" where
  "world0 c = \<lparr>cache = c, trace = []\<rparr>"

definition expired_cache :: string where
  "expired_cache = ''{\"access_token\":\"e30.eyJleHAiOjEwMDB9.c2ln\",\"refresh_token\":\"r1\"}''"

definition expired_token :: json where
  "expired_token = JObj [(''access_token'', JStr ''e30.eyJleHAiOjEwMDB9.c2ln''), (''refresh_token'', JStr ''r1'')]"

definition empty_token :: json where
  "empty_token = JObj [(''access_token'', JStr []), (''token_type'', JStr ''Bearer''),
                       (''expires_in'', JNum 1199), (''refresh_token'', JStr ''r2'')]"

definition is_respond :: "effect \<Rightarrow> bool" where
  "is_respond e = (case e of Respond s b \<Rightarrow> True | _ \<Rightarrow> False)"

definition is_fetch :: "effect \<Rightarrow> bool" where
  "is_fetch e = (case e of Fetch r \<Rightarrow> True | _ \<Rightarrow> False)"

definition is_close :: "effect \<Rightarrow> bool" where
  "is_close e = (case e of ServerClose \<Rightarrow> True | _ \<Rightarrow> False)"

section \<open>Callbacks\<close>

text \<open>
  A request is \<open>parsed\<close> when its URL is not empty and the parser reads it. A valid callback
  is a parsed request whose \<open>state\<close> is the state generated and whose \<open>code\<close> is truthy
  (a string that is not empty, or the array of a repeated parameter). \<open>answer\<close> is what the
  handler sends to a parsed request.
\<close>

definition parsed :: "env \<Rightarrow> srv_event \<Rightarrow> bool" where
  "parsed env ev =
     (case ev of
        Request (Some u) \<Rightarrow> u \<noteq> [] \<and> (case url_parse env u of Inl e \<Rightarrow> False | Inr q \<Rightarrow> True)
      | _ \<Rightarrow> False)"

definition valid_callback :: "env \<Rightarrow> string \<Rightarrow> srv_event \<Rightarrow> bool" where
  "valid_callback env state ev =
     (case ev of
        Request (Some u) \<Rightarrow>
          u \<noteq> [] \<and> (case url_parse env u of
                       Inl e \<Rightarrow> False
                     | Inr q \<Rightarrow> q ''state'' = QStr state \<and> truthy_q (q ''code''))
      | _ \<Rightarrow> False)"

definition answer :: "env \<Rightarrow> string \<Rightarrow> srv_event \<Rightarrow> effect" where
  "answer env state ev =
     (if valid_callback env state ev then Respond 200 ''oauth success!'' else Respond 200 [])"
section \<open>Well-formed documents\<close>

text \<open>
  A JavaScript object has each of its keys once: \<open>wf_json\<close> says so of every object of a
  document, and that the document is in the fragment modelled: its numbers are safe
  integers and no key is an array index. \<open>fuel\<close> counts the values of a document,
  \<open>ends_number\<close> holds of a text that cannot continue a number, \<open>opens_value\<close> of a character that can start a value, and
  \<open>url_safe\<close> of the characters of the alphabet of base64url.
\<close>

fun wf_json :: "json \<Rightarrow> bool"
  and wf_elements :: "json list \<Rightarrow> bool"
  and wf_members :: "(string \<times> json) list \<Rightarrow> bool" where
  "wf_json (JArr vs) = wf_elements vs"
| "wf_json (JObj kvs) =
     (distinct (map fst kvs) \<and> \<not> list_ex is_index (map fst kvs) \<and> wf_members kvs)"
| "wf_json (JNum n) = (\<bar>n\<bar> \<le> MAX_SAFE_INTEGER)"
| "wf_json v = True"
| "wf_elements [] = True"
| "wf_elements (v # vs) = (wf_json v \<and> wf_elements vs)"
| "wf_members [] = True"
| "wf_members ((k, v) # kvs) = (wf_json v \<and> wf_members kvs)"

fun fuel :: "json \<Rightarrow> nat"
  and fuel_elements :: "json list \<Rightarrow> nat"
  and fuel_members :: "(string \<times> json) list \<Rightarrow> nat" where
  "fuel (JArr vs) = Suc (fuel_elements vs)"
| "fuel (JObj kvs) = Suc (fuel_members kvs)"
| "fuel v = Suc 0"
| "fuel_elements [] = 0"
| "fuel_elements (v # vs) = Suc (fuel v + fuel_elements vs)"
| "fuel_members [] = 0"
| "fuel_members ((k, v) # kvs) = Suc (fuel v + fuel_members kvs)"

definition ends_number :: "string \<Rightarrow> bool" where
  "ends_number rest =
     (case rest of [] \<Rightarrow> True
      | x # xs \<Rightarrow> \<not> is_digit x \<and> x \<noteq> CHR ''.'' \<and> x \<noteq> CHR ''e'' \<and> x \<noteq> CHR ''E'')"

definition opens_value :: "char \<Rightarrow> bool" where
  "opens_value c =
     (c = CHR ''n'' \<or> c = CHR ''t'' \<or> c = CHR ''f'' \<or> c = CHR ''-'' \<or> c = CHR 0x22
      \<or> c = CHR ''['' \<or> c = CHR ''{'' \<or> is_digit c)"

definition url_safe :: "char \<Rightarrow> bool" where
  "url_safe c = (is_alnum c \<or> c = CHR ''-'' \<or> c = CHR ''_'')"

text \<open>The challenge in the words of the specification: the base64url encoding of the
  SHA-256 digest of the verifier, stripped of its padding.\<close>

definition spec_challenge :: "string \<Rightarrow> string" where
  "spec_challenge verifier =
     filter (\<lambda>c. c \<noteq> CHR ''='') (base64url_padded (sha256 (utf8 verifier)))"

section \<open>The token cache\<close>

lemma emit_trace: "trace (emit e w) = trace w @ [e]"
  by (simp add: emit_def)

lemma emit_cache: "cache (emit e w) = cache w"
  by (simp add: emit_def)

text \<open>A promise is an object: the test of \<open>getTokenFromCache\<close> on the result of
  \<open>validateJwt\<close> succeeds whatever the token holds.\<close>

lemma truthy_validateJwt: "truthy (validateJwt env t)"
  by (simp add: validateJwt_def)

lemma truthy_prop_obj:
  assumes "get_prop (Json json) k = Inr c" and "truthy c"
  shows "truthy (Json json)"
  using assms by (cases json) auto

lemma getTokenFromCache_cached:
  assumes "cache w = Some v" and "v \<noteq> []" and "JSON_parse v = Inr json"
    and "get_prop (Json json) ''access_token'' = Inr c" and "truthy c"
  shows "getTokenFromCache env config w = (Inr (Json json), w)"
  using assms truthy_prop_obj [OF assms(4,5)]
  by (simp add: getTokenFromCache_def truthy_validateJwt)

lemma requestByNative_cached:
  assumes "cache w = Some v" and "v \<noteq> []" and "JSON_parse v = Inr json"
    and "get_prop (Json json) ''access_token'' = Inr c" and "truthy c"
  shows "requestByNative env config w = (Returned (Json json), w)"
proof -
  have "json \<noteq> JNull" using assms(4) by auto
  then show ?thesis
    by (simp add: requestByNative_def getTokenFromCache_cached [OF assms] async_return_def)
qed

text \<open>
  C1. The claim: with a cached record whose access token has expired and which holds a
  \<open>refresh_token\<close>, \<open>requestByNative\<close> performs the refresh grant and persists its result,
  and never starts the interactive flow. The code does not: at the cache below (the token
  decodes to \<open>{exp: 1000}\<close>, the clock shows 2000, so \<open>validateJwt\<close> fulfils its promise with
  \<open>undefined\<close>) \<open>requestByNative\<close> returns the expired record as it is. No request is sent
  to the token endpoint and the cache is not written: the trace stays empty.
\<close>

theorem expired_token_is_returned_without_refresh:
  "validateJwt (env0 (response0 200 ''OK'') []) (Json (JStr ''e30.eyJleHAiOjEwMDB9.c2ln''))
     = Promise (Fulfilled Undefined)
   \<and> get_prop (Json expired_token) ''refresh_token'' = Inr (Json (JStr ''r1''))
   \<and> requestByNative (env0 (response0 200 ''OK'') []) config0 (world0 (Some expired_cache))
       = (Returned (Json expired_token), world0 (Some expired_cache))"
  by code_simp

text \<open>
  C2, as stated: a cache file that is not valid JSON makes \<open>getTokenFromCache\<close> return
  \<open>undefined\<close>. It does not: on a truncated record \<open>JSON.parse\<close> raises, nothing catches
  the \<open>SyntaxError\<close>, and \<open>requestByNative\<close> fails with it.
\<close>

theorem corrupt_cache_raises:
  "JSON_parse ''{\"access_token\":\"abc'' = Inl SyntaxError
   \<and> getTokenFromCache (env0 (response0 200 ''OK'') []) config0
         (world0 (Some ''{\"access_token\":\"abc''))
       = (Inl SyntaxError, world0 (Some ''{\"access_token\":\"abc''))
   \<and> fst (requestByNative (env0 (response0 200 ''OK'') []) config0
         (world0 (Some ''{\"access_token\":\"abc'')))
       = Threw SyntaxError"
  by code_simp

text \<open>
  C2, amended: on an empty cache file, and on one that parses to a value with no truthy
  \<open>access_token\<close>, \<open>getTokenFromCache\<close> returns \<open>undefined\<close> and does nothing else; on a
  file that is not empty and that \<open>JSON.parse\<close> rejects, it raises the \<open>SyntaxError\<close> of
  \<open>JSON.parse\<close>.
\<close>

theorem getTokenFromCache_no_token:
  assumes "cache w = Some v"
  shows "(v = [] \<longrightarrow> getTokenFromCache env config w = (Inr Undefined, w))
       \<and> (\<forall>json. JSON_parse v = Inr json
             \<and> (\<forall>c. get_prop (Json json) ''access_token'' = Inr c \<longrightarrow> \<not> truthy c)
             \<longrightarrow> getTokenFromCache env config w = (Inr Undefined, w))
       \<and> (v \<noteq> [] \<and> JSON_parse v = Inl SyntaxError \<longrightarrow>
            getTokenFromCache env config w = (Inl SyntaxError, w))"
proof (intro conjI allI impI)
  show "getTokenFromCache env config w = (Inr Undefined, w)" if "v = []"
    using assms that by (simp add: getTokenFromCache_def)
next
  fix json
  assume a: "JSON_parse v = Inr json
    \<and> (\<forall>c. get_prop (Json json) ''access_token'' = Inr c \<longrightarrow> \<not> truthy c)"
  show "getTokenFromCache env config w = (Inr Undefined, w)"
  proof (cases "truthy (Json json)")
    case True
    then have "json \<noteq> JNull" by auto
    then have "\<exists>c. get_prop (Json json) ''access_token'' = Inr c"
      by (cases json) (auto split: option.splits)
    then obtain c where c: "get_prop (Json json) ''access_token'' = Inr c" ..
    with a have "\<not> truthy c" by blast
    with assms a c True show ?thesis
      by (simp add: getTokenFromCache_def)
  next
    case False
    with assms a show ?thesis
      by (simp add: getTokenFromCache_def)
  qed
next
  assume "v \<noteq> [] \<and> JSON_parse v = Inl SyntaxError"
  with assms show "getTokenFromCache env config w = (Inl SyntaxError, w)"
    by (simp add: getTokenFromCache_def)
qed

theorem getTokenFromCache_no_token_witness:
  "cache (world0 (Some ''{\"token_type\":\"Bearer\"}'')) = Some ''{\"token_type\":\"Bearer\"}''
   \<and> JSON_parse ''{\"token_type\":\"Bearer\"}'' = Inr (JObj [(''token_type'', JStr ''Bearer'')])
   \<and> getTokenFromCache (env0 (response0 200 ''OK'') []) config0
         (world0 (Some ''{\"token_type\":\"Bearer\"}''))
       = (Inr Undefined, world0 (Some ''{\"token_type\":\"Bearer\"}''))"
proof -
  have c: "cache (world0 (Some ''{\"token_type\":\"Bearer\"}'')) = Some ''{\"token_type\":\"Bearer\"}''"
    by (simp add: world0_def)
  have p: "JSON_parse ''{\"token_type\":\"Bearer\"}'' = Inr (JObj [(''token_type'', JStr ''Bearer'')])"
    by code_simp
  have l: "\<forall>c. get_prop (Json (JObj [(''token_type'', JStr ''Bearer'')])) ''access_token'' = Inr c
             \<longrightarrow> \<not> truthy c"
    by simp
  from getTokenFromCache_no_token [OF c, of "env0 (response0 200 ''OK'') []" config0] p l
  have "getTokenFromCache (env0 (response0 200 ''OK'') []) config0
          (world0 (Some ''{\"token_type\":\"Bearer\"}''))
       = (Inr Undefined, world0 (Some ''{\"token_type\":\"Bearer\"}''))"
    by blast
  with c p show ?thesis by blast
qed

section \<open>The callback listener\<close>

lemma settle_None: "settle None x = Some x"
  by (simp add: settle_def)

lemma settle_Some: "settle (Some y) x = Some y"
  by (simp add: settle_def)

lemma on_request_mismatch:
  assumes "u \<noteq> []" and "url_parse env u = Inr query" and "query ''state'' \<noteq> QStr state"
  shows "on_request env state (Some u) (p, w) = Inr (p, emit (Respond 200 []) w)"
  using assms by (simp add: on_request_def)

lemma on_request_refused:
  assumes "u \<noteq> []" and "url_parse env u = Inl e"
  shows "on_request env state (Some u) (p, w) = Inl e"
  using assms by (simp add: on_request_def)

lemma on_request_valid:
  assumes "u \<noteq> []" and "url_parse env u = Inr query" and "query ''state'' = QStr state"
    and "truthy_q (query ''code'')"
  shows "on_request env state (Some u) (p, w) =
           Inr (settle p (Fulfilled (query ''code'')), emit (Respond 200 ''oauth success!'') w)"
  using assms by (simp add: on_request_def)

lemma on_event_rejected:
  assumes "parsed env ev" and "\<not> valid_callback env state ev"
  shows "on_event env state ev (p, w) = Inr (p, emit (Respond 200 []) w)"
  using assms
  by (cases ev)
     (auto simp: on_event_def on_request_def parsed_def valid_callback_def
           split: option.splits sum.splits)

lemma on_event_settled:
  assumes "parsed env ev"
  shows "on_event env state ev (Some x, w) = Inr (Some x, emit (answer env state ev) w)"
  using assms
  by (cases ev)
     (auto simp: on_event_def on_request_def parsed_def valid_callback_def answer_def settle_def
           split: option.splits sum.splits)

lemma on_event_once:
  assumes "fst pw = Some x" and "on_event env state ev pw = Inr pw'"
  shows "fst pw' = Some x"
  using assms
  by (cases pw; cases ev)
     (auto simp: on_event_def on_request_def settle_def split: option.splits sum.splits if_splits)

lemma emit_update: "emit e w = w\<lparr>trace := trace w @ [e]\<rparr>"
  by (simp add: emit_def)

lemma turn_rejected:
  assumes "\<forall>e \<in> set evs. parsed env e \<and> \<not> valid_callback env state e"
  shows "turn env state (evs @ rest) (p, w) =
           turn env state rest (p, w\<lparr>trace := trace w @ replicate (length evs) (Respond 200 [])\<rparr>)"
  using assms
proof (induction evs arbitrary: w)
  case Nil
  then show ?case by simp
next
  case (Cons e evs)
  then have e: "parsed env e" "\<not> valid_callback env state e" by simp_all
  show ?case
    using Cons.IH [of "emit (Respond 200 []) w"] Cons.prems
    by (simp add: on_event_rejected [OF e] emit_update replicate_append_same)
qed

lemma turn_settled:
  assumes "\<forall>e \<in> set evs. parsed env e"
  shows "turn env state evs (Some x, w) =
           Inr (Some x, w\<lparr>trace := trace w @ map (answer env state) evs\<rparr>)"
  using assms
proof (induction evs arbitrary: w)
  case Nil
  then show ?case by simp
next
  case (Cons e evs)
  then have e: "parsed env e" by simp
  show ?case
    using Cons.IH [of "emit (answer env state e) w"] Cons.prems
    by (simp add: on_event_settled [OF e] emit_update)
qed

lemma turn_first_valid:
  assumes "\<forall>e \<in> set a. parsed env e \<and> \<not> valid_callback env state e"
    and "u \<noteq> []" and "url_parse env u = Inr query" and "query ''state'' = QStr state"
    and "truthy_q (query ''code'')"
    and "\<forall>e \<in> set b. parsed env e"
  shows "turn env state (a @ Request (Some u) # b) (None, w) =
           Inr (Some (Fulfilled (query ''code'')),
                w\<lparr>trace := trace w @ replicate (length a) (Respond 200 [])
                              @ Respond 200 ''oauth success!'' # map (answer env state) b\<rparr>)"
  by (simp add: turn_rejected [OF assms(1)] on_event_def on_request_valid [OF assms(2-5)]
        settle_None turn_settled [OF assms(6)] emit_update)

lemma await_code_rejected:
  assumes "\<forall>e \<in> set (concat before). parsed env e \<and> \<not> valid_callback env state e"
  shows "await_code env state (before @ ts) w =
           await_code env state ts
             (w\<lparr>trace := trace w @ replicate (length (concat before)) (Respond 200 [])\<rparr>)"
  using assms
proof (induction before arbitrary: w)
  case Nil
  then show ?case by simp
next
  case (Cons t before)
  then have t: "\<forall>e \<in> set t. parsed env e \<and> \<not> valid_callback env state e" by simp
  have "turn env state t (None, w) =
          Inr (None, w\<lparr>trace := trace w @ replicate (length t) (Respond 200 [])\<rparr>)"
    using turn_rejected [OF t, of "[]" None w] by simp
  then show ?case
    using Cons.IH [of "w\<lparr>trace := trace w @ replicate (length t) (Respond 200 [])\<rparr>"] Cons.prems
    by (simp add: replicate_add)
qed

lemma await_code_first_valid:
  assumes "\<forall>e \<in> set (concat before @ a). parsed env e \<and> \<not> valid_callback env state e"
    and "u \<noteq> []" and "url_parse env u = Inr query" and "query ''state'' = QStr state"
    and "truthy_q (query ''code'')"
    and "\<forall>e \<in> set b. parsed env e"
  shows "await_code env state (before @ (a @ Request (Some u) # b) # after) w =
           Resumed (Fulfilled (query ''code''))
             (w\<lparr>trace := trace w @ replicate (length (concat before @ a)) (Respond 200 [])
                              @ Respond 200 ''oauth success!'' # map (answer env state) b\<rparr>)
             after"
proof -
  have 1: "\<forall>e \<in> set (concat before). parsed env e \<and> \<not> valid_callback env state e"
    and 2: "\<forall>e \<in> set a. parsed env e \<and> \<not> valid_callback env state e"
    using assms(1) by auto
  show ?thesis
    by (simp add: await_code_rejected [OF 1] turn_first_valid [OF 2 assms(2-6)] replicate_add)
qed

lemma await_code_refused:
  assumes "u \<noteq> []" and "url_parse env u = Inl e"
  shows "await_code env state ((Request (Some u) # evs) # ts) w = Died e w"
  using assms by (simp add: on_event_def on_request_def)

subsection \<open>A whole run\<close>

lemma getTokenFromCache_absent:
  "cache w = None \<Longrightarrow> getTokenFromCache env config w = (Inr Undefined, w)"
  by (simp add: getTokenFromCache_def)

lemma requestByNative_died:
  assumes "cache w = None"
    and "await_code env (randomstring env 10) (incoming env)
           (openUrl (authorize_url config (generateCodeChallenge (generateCodeVerifier env))
                       (randomstring env 10)) (emit (Listen 3001) w))
         = Died e w3"
  shows "requestByNative env config w = (Uncaught e, w3)"
  using assms by (simp add: requestByNative_def getTokenFromCache_absent Let_def)

lemma requestByNative_resumed:
  assumes "cache w = None"
    and "await_code env (randomstring env 10) (incoming env)
           (openUrl (authorize_url config (generateCodeChallenge (generateCodeVerifier env))
                       (randomstring env 10)) (emit (Listen 3001) w))
         = Resumed (Fulfilled code) w3 rest"
  shows "requestByNative env config w =
           (case turns env (randomstring env 10) rest
                   (Some (Fulfilled code),
                    exchange_send env config code (generateCodeVerifier env) (emit ServerClose w3)) of
              Inl (e, w4) \<Rightarrow> (Uncaught e, w4)
            | Inr (p, w4) \<Rightarrow> exchange_receive env config code (generateCodeVerifier env) w4)"
  using assms by (simp add: requestByNative_def getTokenFromCache_absent Let_def)

lemma requestByNative_interactive:
  assumes "cache w = None"
    and "await_code env (randomstring env 10) (incoming env)
           (openUrl (authorize_url config (generateCodeChallenge (generateCodeVerifier env))
                       (randomstring env 10)) (emit (Listen 3001) w))
         = Resumed (Fulfilled code) w3 []"
  shows "requestByNative env config w =
           exchange env config code (generateCodeVerifier env) (emit ServerClose w3)"
  by (simp add: requestByNative_resumed [OF assms] exchange_def)

text \<open>What the handlers do once the promise is settled: they never touch the cache, they
  send no request to the token endpoint, and the promise stays as it is.\<close>

lemma on_event_late:
  assumes "on_event env state ev (Some x, w) = Inr (p', w')"
  shows "p' = Some x \<and> (\<exists>es. w' = w\<lparr>trace := trace w @ es\<rparr> \<and> list_all (\<lambda>e. \<not> is_fetch e) es)"
proof (cases ev)
  case (Request req_url)
  have "p' = Some x" using on_event_once [of "(Some x, w)" x env state ev "(p', w')"] assms by simp
  moreover have "w' = w\<lparr>trace := trace w @ [Respond 200 []]\<rparr>
       \<or> w' = w\<lparr>trace := trace w @ [ConsoleLog ''req.url is empty'', Respond 200 []]\<rparr>
       \<or> w' = w\<lparr>trace := trace w @ [Respond 200 ''oauth success!'']\<rparr>"
    using assms Request
    by (auto simp: on_event_def on_request_def emit_def split: option.splits sum.splits if_splits)
  moreover have "list_all (\<lambda>e. \<not> is_fetch e) [Respond 200 []]"
    "list_all (\<lambda>e. \<not> is_fetch e) [ConsoleLog ''req.url is empty'', Respond 200 []]"
    "list_all (\<lambda>e. \<not> is_fetch e) [Respond 200 ''oauth success!'']"
    by (simp_all add: is_fetch_def)
  ultimately show ?thesis by blast
next
  case (SrvError err)
  then have "p' = Some x" "w' = w\<lparr>trace := trace w @ []\<rparr>"
    using assms by (simp_all add: on_event_def settle_def)
  then show ?thesis by (intro conjI exI [of _ "[]"]) simp_all
qed

lemma turn_late:
  "(case turn env state evs (Some x, w) of
      Inl (e, w') \<Rightarrow> \<exists>es. w' = w\<lparr>trace := trace w @ es\<rparr> \<and> list_all (\<lambda>e. \<not> is_fetch e) es
    | Inr (p', w') \<Rightarrow>
        p' = Some x \<and> (\<exists>es. w' = w\<lparr>trace := trace w @ es\<rparr> \<and> list_all (\<lambda>e. \<not> is_fetch e) es))"
proof (induction evs arbitrary: w)
  case Nil
  show ?case by (simp add: exI [of _ "[]"])
next
  case (Cons ev evs)
  show ?case
  proof (cases "on_event env state ev (Some x, w)")
    case (Inl e)
    then show ?thesis by (simp add: exI [of _ "[]"])
  next
    case (Inr pw')
    obtain p' w' where pw': "pw' = (p', w')" by (cases pw')
    from on_event_late [of env state ev x w p' w'] Inr pw' obtain es where
      es: "p' = Some x" "w' = w\<lparr>trace := trace w @ es\<rparr>" "list_all (\<lambda>e. \<not> is_fetch e) es"
      by auto
    show ?thesis
    proof (cases "turn env state evs (Some x, w')")
      case (Inl d)
      obtain e w2 where d: "d = (e, w2)" by (cases d)
      from Cons.IH [of w'] Inl d obtain es' where
        "w2 = w'\<lparr>trace := trace w' @ es'\<rparr>" "list_all (\<lambda>e. \<not> is_fetch e) es'"
        by auto
      then have "w2 = w\<lparr>trace := trace w @ (es @ es')\<rparr>" "list_all (\<lambda>e. \<not> is_fetch e) (es @ es')"
        using es by simp_all
      then show ?thesis
        using \<open>on_event env state ev (Some x, w) = Inr pw'\<close> pw' es(1) Inl d by auto
    next
      case (Inr r)
      obtain p2 w2 where r: "r = (p2, w2)" by (cases r)
      from Cons.IH [of w'] Inr r obtain es' where
        "p2 = Some x" "w2 = w'\<lparr>trace := trace w' @ es'\<rparr>" "list_all (\<lambda>e. \<not> is_fetch e) es'"
        by auto
      then have "p2 = Some x" "w2 = w\<lparr>trace := trace w @ (es @ es')\<rparr>"
        "list_all (\<lambda>e. \<not> is_fetch e) (es @ es')"
        using es by simp_all
      then show ?thesis
        using \<open>on_event env state ev (Some x, w) = Inr pw'\<close> pw' es(1) Inr r by auto
    qed
  qed
qed

lemma turns_late:
  "(case turns env state ts (Some x, w) of
      Inl (e, w') \<Rightarrow> \<exists>es. w' = w\<lparr>trace := trace w @ es\<rparr> \<and> list_all (\<lambda>e. \<not> is_fetch e) es
    | Inr (p', w') \<Rightarrow>
        p' = Some x \<and> (\<exists>es. w' = w\<lparr>trace := trace w @ es\<rparr> \<and> list_all (\<lambda>e. \<not> is_fetch e) es))"
proof (induction ts arbitrary: w)
  case Nil
  show ?case by (simp add: exI [of _ "[]"])
next
  case (Cons t ts)
  show ?case
  proof (cases "turn env state t (Some x, w)")
    case (Inl d)
    then show ?thesis using turn_late [where env = env and state = state and evs = t and x = x and w = w] by simp
  next
    case a: (Inr pw')
    obtain p' w' where pw': "pw' = (p', w')" by (cases pw')
    from turn_late [where env = env and state = state and evs = t and x = x and w = w] a pw' obtain es where
      es: "p' = Some x" "w' = w\<lparr>trace := trace w @ es\<rparr>" "list_all (\<lambda>e. \<not> is_fetch e) es"
      by auto
    show ?thesis
    proof (cases "turns env state ts (Some x, w')")
      case (Inl d)
      obtain e w2 where d: "d = (e, w2)" by (cases d)
      from Cons.IH [of w'] Inl d obtain es' where
        "w2 = w'\<lparr>trace := trace w' @ es'\<rparr>" "list_all (\<lambda>e. \<not> is_fetch e) es'"
        by auto
      then have "w2 = w\<lparr>trace := trace w @ (es @ es')\<rparr>" "list_all (\<lambda>e. \<not> is_fetch e) (es @ es')"
        using es by simp_all
      then show ?thesis
        using a pw' es(1) Inl d by auto
    next
      case (Inr r)
      obtain p2 w2 where r: "r = (p2, w2)" by (cases r)
      from Cons.IH [of w'] Inr r obtain es' where
        "p2 = Some x" "w2 = w'\<lparr>trace := trace w' @ es'\<rparr>" "list_all (\<lambda>e. \<not> is_fetch e) es'"
        by auto
      then have "p2 = Some x" "w2 = w\<lparr>trace := trace w @ (es @ es')\<rparr>"
        "list_all (\<lambda>e. \<not> is_fetch e) (es @ es')"
        using es by simp_all
      then show ?thesis
        using a pw' es(1) Inr r by auto
    qed
  qed
qed

lemma exchange_receive_outcome:
  "fst (exchange_receive env config code v w) = fst (exchange_receive env config code v w')"
  by (simp add: exchange_receive_def split: sum.splits)

lemma exchange_receive_trace:
  "\<exists>es. trace (snd (exchange_receive env config code v w)) = trace w @ es
        \<and> list_all (\<lambda>e. \<not> is_fetch e) es"
  by (auto simp: exchange_receive_def emit_def saveTokenToCache_def is_fetch_def split: sum.splits)

lemma requestByNative_resumed_trace:
  assumes "cache w = None"
    and "await_code env (randomstring env 10) (incoming env)
           (openUrl (authorize_url config (generateCodeChallenge (generateCodeVerifier env))
                       (randomstring env 10)) (emit (Listen 3001) w))
         = Resumed (Fulfilled code) w3 rest"
  shows "\<exists>es. trace (snd (requestByNative env config w)) =
            trace w3 @ ServerClose
              # Fetch (exchange_request env config code (generateCodeVerifier env)) # es
          \<and> (\<forall>e \<in> set es. \<not> is_fetch e)"
proof -
  let ?v = "generateCodeVerifier env"
  let ?W = "exchange_send env config code ?v (emit ServerClose w3)"
  have W: "trace ?W = trace w3 @ [ServerClose, Fetch (exchange_request env config code ?v)]"
    by (simp add: exchange_send_def emit_def)
  note r = requestByNative_resumed [OF assms]
  show ?thesis
  proof (cases "turns env (randomstring env 10) rest (Some (Fulfilled code), ?W)")
    case (Inl d)
    obtain e w4 where d: "d = (e, w4)" by (cases d)
    from turns_late [where env = env and state = "randomstring env 10" and ts = rest
          and x = "Fulfilled code" and w = ?W] Inl d
    obtain es where es: "w4 = ?W\<lparr>trace := trace ?W @ es\<rparr>" "list_all (\<lambda>e. \<not> is_fetch e) es"
      by auto
    have "trace (snd (requestByNative env config w)) =
            trace w3 @ ServerClose # Fetch (exchange_request env config code ?v) # es"
      using r Inl d es(1) W by simp
    then show ?thesis using es(2) by (auto simp: list_all_iff)
  next
    case (Inr q)
    obtain p w4 where q: "q = (p, w4)" by (cases q)
    from turns_late [where env = env and state = "randomstring env 10" and ts = rest
          and x = "Fulfilled code" and w = ?W] Inr q
    obtain es where es: "w4 = ?W\<lparr>trace := trace ?W @ es\<rparr>" "list_all (\<lambda>e. \<not> is_fetch e) es"
      by auto
    from exchange_receive_trace [of env config code ?v w4] obtain es' where
      es': "trace (snd (exchange_receive env config code ?v w4)) = trace w4 @ es'"
           "list_all (\<lambda>e. \<not> is_fetch e) es'"
      by blast
    have "trace (snd (requestByNative env config w)) =
            trace w3 @ ServerClose # Fetch (exchange_request env config code ?v) # (es @ es')"
      using r Inr q es(1) es'(1) W by simp
    moreover have "\<forall>e \<in> set (es @ es'). \<not> is_fetch e"
      using es(2) es'(2) by (auto simp: list_all_iff)
    ultimately show ?thesis by blast
  qed
qed

lemma requestByNative_resumed_outcome:
  assumes "cache w = None"
    and "await_code env (randomstring env 10) (incoming env)
           (openUrl (authorize_url config (generateCodeChallenge (generateCodeVerifier env))
                       (randomstring env 10)) (emit (Listen 3001) w))
         = Resumed (Fulfilled code) w3 rest"
  shows "fst (requestByNative env config w) =
           fst (exchange env config code (generateCodeVerifier env) (emit ServerClose w3))
       \<or> (\<exists>e. fst (requestByNative env config w) = Uncaught e)"
proof -
  let ?v = "generateCodeVerifier env"
  let ?W = "exchange_send env config code ?v (emit ServerClose w3)"
  note r = requestByNative_resumed [OF assms]
  show ?thesis
  proof (cases "turns env (randomstring env 10) rest (Some (Fulfilled code), ?W)")
    case (Inl d)
    then show ?thesis using r by (cases d) simp
  next
    case (Inr q)
    obtain p w4 where q: "q = (p, w4)" by (cases q)
    have "fst (requestByNative env config w) = fst (exchange_receive env config code ?v w4)"
      using r Inr q by simp
    also have "\<dots> = fst (exchange_receive env config code ?v ?W)"
      by (rule exchange_receive_outcome)
    finally show ?thesis by (simp add: exchange_def)
  qed
qed

lemma requestByNative_waiting:
  assumes "cache w = None"
    and "await_code env (randomstring env 10) (incoming env)
           (openUrl (authorize_url config (generateCodeChallenge (generateCodeVerifier env))
                       (randomstring env 10)) (emit (Listen 3001) w))
         = Waiting w3"
  shows "requestByNative env config w = (Pending, w3)"
  using assms by (simp add: requestByNative_def getTokenFromCache_absent Let_def)

lemma env0_fields:
  "randomstring (env0 rsp evs) 10 = ''abcDEF1234''"
  "incoming (env0 rsp evs) = evs"
  "url_parse (env0 rsp evs) = plain_parse"
  "fetch (env0 rsp evs) req = Inr rsp"
  by (simp_all add: env0_def eval_nat_numeral)

lemma is_respond_simps [simp]:
  "is_respond (Respond s b)" "\<not> is_respond (ConsoleLog m)" "\<not> is_respond (Fetch r)"
  "\<not> is_respond ServerClose" "\<not> is_respond (ConsoleError x)" "\<not> is_respond (Listen n)"
  "\<not> is_respond (Exec c)"
  by (simp_all add: is_respond_def)

subsection \<open>Callbacks with another state\<close>

text \<open>
  C3, as stated: every request whose \<open>state\<close> is not the state generated is answered (its
  connection is ended) and the listener keeps waiting. The handler parses the URL before
  it compares the state, and nothing catches what the parser raises: the request
  \<open>http://[::1/cb?code=xyz&state=stale\<close> carries a stale state, the parser refuses its
  URL, the handler raises before it answers, and the exception ends the process:
  \<open>requestByNative\<close> has opened the browser and sent no answer.
\<close>

theorem unparsed_callback_is_not_answered:
  "url_parse (env0 (response0 200 ''OK'') [[Request (Some ''http://[::1/cb?code=xyz&state=stale'')]])
       ''http://[::1/cb?code=xyz&state=stale'' = Inl TypeError
   \<and> on_request (env0 (response0 200 ''OK'') [[Request (Some ''http://[::1/cb?code=xyz&state=stale'')]])
         ''abcDEF1234'' (Some ''http://[::1/cb?code=xyz&state=stale'') (None, world0 None)
       = Inl TypeError
   \<and> randomstring (env0 (response0 200 ''OK'') [[Request (Some ''http://[::1/cb?code=xyz&state=stale'')]]) 10
       = ''abcDEF1234''
   \<and> fst (requestByNative
            (env0 (response0 200 ''OK'') [[Request (Some ''http://[::1/cb?code=xyz&state=stale'')]])
            config0 (world0 None))
       = Uncaught TypeError
   \<and> filter is_respond (trace (snd (requestByNative
            (env0 (response0 200 ''OK'') [[Request (Some ''http://[::1/cb?code=xyz&state=stale'')]])
            config0 (world0 None))))
       = []"
proof -
  let ?u = "''http://[::1/cb?code=xyz&state=stale''"
  let ?env = "env0 (response0 200 ''OK'') [[Request (Some ?u)]]"
  let ?W = "openUrl (authorize_url config0 (generateCodeChallenge (generateCodeVerifier ?env))
                       (randomstring ?env 10)) (emit (Listen 3001) (world0 None))"
  have p: "url_parse ?env ?u = Inl TypeError"
    by (simp add: env0_fields plain_parse_def authority_def)
  have n: "?u \<noteq> []" by simp
  have c: "cache (world0 None) = None" by (simp add: world0_def)
  have "await_code ?env (randomstring ?env 10) (incoming ?env) ?W = Died TypeError ?W"
    using await_code_refused [OF n p, of "randomstring ?env 10" "[]" "[]" ?W]
    by (simp only: env0_fields)
  from requestByNative_died [OF c this]
  have r: "requestByNative ?env config0 (world0 None) = (Uncaught TypeError, ?W)" .
  have "filter is_respond (trace ?W) = []"
    by (simp add: openUrl_def emit_def world0_def)
  then show ?thesis
    using p r on_request_refused [OF n p] by (simp add: env0_fields)
qed

text \<open>
  C3, amended: a request whose URL the parser reads and whose \<open>state\<close> is not the state
  generated for this attempt (\<open>!==\<close>: a missing parameter and a repeated one differ from it
  too) never resolves the pending authorization, whatever its \<open>code\<close> is: the handler ends
  the response with no body and leaves the promise as it was, the turn goes on with the
  next event, and \<open>await codePromise\<close> with the next turn; when nothing else arrives,
  \<open>requestByNative\<close> stays pending. A request whose URL the parser refuses does not
  resolve the authorization either, and it is not answered: the handler raises what the
  parser raised, and the wait ends with the process.
\<close>

theorem state_mismatch_never_resolves:
  assumes "u \<noteq> []" and "url_parse env u = Inr query" and "query ''state'' \<noteq> QStr state"
  shows "on_request env state (Some u) (p, w) = Inr (p, emit (Respond 200 []) w)
       \<and> turn env state (Request (Some u) # evs) (p, w) =
           turn env state evs (p, emit (Respond 200 []) w)
       \<and> await_code env state ([Request (Some u)] # ts) w =
           await_code env state ts (emit (Respond 200 []) w)
       \<and> (cache w = None \<and> state = randomstring env 10 \<and> incoming env = [[Request (Some u)]] \<longrightarrow>
            requestByNative env config w =
              (Pending,
               emit (Respond 200 [])
                 (openUrl (authorize_url config (generateCodeChallenge (generateCodeVerifier env)) state)
                    (emit (Listen 3001) w))))
       \<and> (\<forall>v e. v \<noteq> [] \<and> url_parse env v = Inl e \<longrightarrow>
            on_request env state (Some v) (p, w) = Inl e
            \<and> turn env state (Request (Some v) # evs) (p, w) = Inl (e, w)
            \<and> await_code env state ((Request (Some v) # evs) # ts) w = Died e w)"
proof (intro conjI allI impI)
  show 1: "on_request env state (Some u) (p, w) = Inr (p, emit (Respond 200 []) w)"
    by (rule on_request_mismatch [OF assms])
  show "turn env state (Request (Some u) # evs) (p, w) =
           turn env state evs (p, emit (Respond 200 []) w)"
    by (simp add: on_event_def on_request_mismatch [OF assms])
  show 3: "await_code env state ([Request (Some u)] # ts) w =
           await_code env state ts (emit (Respond 200 []) w)" for ts
    by (simp add: on_event_def on_request_mismatch [OF assms])
  have 4: "await_code env state [[Request (Some u)]] W = Waiting (emit (Respond 200 []) W)" for W
    by (simp add: on_event_def on_request_mismatch [OF assms])
  {
    assume a: "cache w = None \<and> state = randomstring env 10 \<and> incoming env = [[Request (Some u)]]"
    let ?W = "openUrl (authorize_url config (generateCodeChallenge (generateCodeVerifier env))
                         (randomstring env 10)) (emit (Listen 3001) w)"
    have "await_code env (randomstring env 10) (incoming env) ?W = Waiting (emit (Respond 200 []) ?W)"
      using a 4 [of ?W] by simp
    from requestByNative_waiting [OF _ this] a
    show "requestByNative env config w =
              (Pending,
               emit (Respond 200 [])
                 (openUrl (authorize_url config (generateCodeChallenge (generateCodeVerifier env)) state)
                    (emit (Listen 3001) w)))"
      by simp
  }
  {
    fix v e
    assume b: "v \<noteq> [] \<and> url_parse env v = Inl e"
    then show "on_request env state (Some v) (p, w) = Inl e"
      by (simp add: on_request_refused)
    from b show "turn env state (Request (Some v) # evs) (p, w) = Inl (e, w)"
      by (simp add: on_event_def on_request_refused)
    from b show "await_code env state ((Request (Some v) # evs) # ts) w = Died e w"
      by (intro await_code_refused) simp_all
  }
qed

theorem state_mismatch_never_resolves_witness:
  "url_parse (env0 (response0 200 ''OK'') [[Request (Some ''/cb?code=xyz&state=stale'')]])
       ''/cb?code=xyz&state=stale'' = Inr (plain_query ''/cb?code=xyz&state=stale'')
   \<and> plain_query ''/cb?code=xyz&state=stale'' ''state'' = QStr ''stale''
   \<and> plain_query ''/cb?code=xyz&state=stale'' ''code'' = QStr ''xyz''
   \<and> randomstring (env0 (response0 200 ''OK'') [[Request (Some ''/cb?code=xyz&state=stale'')]]) 10
       = ''abcDEF1234''
   \<and> on_request (env0 (response0 200 ''OK'') [[Request (Some ''/cb?code=xyz&state=stale'')]])
         ''abcDEF1234'' (Some ''/cb?code=xyz&state=stale'') (None, world0 None)
       = Inr (None, emit (Respond 200 []) (world0 None))
   \<and> requestByNative (env0 (response0 200 ''OK'') [[Request (Some ''/cb?code=xyz&state=stale'')]])
         config0 (world0 None)
       = (Pending,
          emit (Respond 200 [])
            (openUrl (authorize_url config0
                        (generateCodeChallenge (generateCodeVerifier
                           (env0 (response0 200 ''OK'') [[Request (Some ''/cb?code=xyz&state=stale'')]])))
                        ''abcDEF1234'')
               (emit (Listen 3001) (world0 None))))
   \<and> url_parse (env0 (response0 200 ''OK'') [[Request (Some ''/cb?code=xyz&state=stale'')]])
       ''http://[::1/cb?code=xyz&state=stale'' = Inl TypeError
   \<and> on_request (env0 (response0 200 ''OK'') [[Request (Some ''/cb?code=xyz&state=stale'')]])
         ''abcDEF1234'' (Some ''http://[::1/cb?code=xyz&state=stale'') (None, world0 None)
       = Inl TypeError"
proof -
  let ?u = "''/cb?code=xyz&state=stale''"
  let ?v = "''http://[::1/cb?code=xyz&state=stale''"
  let ?env = "env0 (response0 200 ''OK'') [[Request (Some ?u)]]"
  have n: "?u \<noteq> []" by simp
  have p: "url_parse ?env ?u = Inr (plain_query ?u)"
    by (simp add: env0_fields plain_parse_def)
  have s: "plain_query ?u ''state'' = QStr ''stale''" by code_simp
  have k: "plain_query ?u ''code'' = QStr ''xyz''" by code_simp
  have m: "plain_query ?u ''state'' \<noteq> QStr ''abcDEF1234''" using s by simp
  have v: "?v \<noteq> [] \<and> url_parse ?env ?v = Inl TypeError"
    by (simp add: env0_fields plain_parse_def authority_def)
  have c: "cache (world0 None) = None" by (simp add: world0_def)
  from state_mismatch_never_resolves [OF n p m, of None "world0 None" "[]" "[]" config0]
  show ?thesis
    using p s k v c by (simp add: env0_fields)
qed

subsection \<open>The first valid callback\<close>

text \<open>
  C4, as stated: no callback after the first valid one is processed, because the listener
  is closed after it. The handler is never removed, and the server is closed only when
  \<open>requestByNative\<close> resumes, after the turn that delivered the first valid callback. Two
  valid callbacks read in one turn are both answered \<open>oauth success!\<close>, the second one like
  the first, and the server is closed after both; the code is that of the first.
\<close>

theorem second_callback_is_answered:
  "randomstring (env0 (response0 200 ''OK'')
        [[Request (Some ''/cb?state=abcDEF1234&code=xyz''),
          Request (Some ''/cb?state=abcDEF1234&code=other'')]]) 10 = ''abcDEF1234''
   \<and> valid_callback (env0 (response0 200 ''OK'')
        [[Request (Some ''/cb?state=abcDEF1234&code=xyz''),
          Request (Some ''/cb?state=abcDEF1234&code=other'')]])
        ''abcDEF1234'' (Request (Some ''/cb?state=abcDEF1234&code=other''))
   \<and> await_code (env0 (response0 200 ''OK'')
        [[Request (Some ''/cb?state=abcDEF1234&code=xyz''),
          Request (Some ''/cb?state=abcDEF1234&code=other'')]])
        ''abcDEF1234''
        [[Request (Some ''/cb?state=abcDEF1234&code=xyz''),
          Request (Some ''/cb?state=abcDEF1234&code=other'')]]
        (world0 None)
       = Resumed (Fulfilled (QStr ''xyz''))
           \<lparr>cache = None, trace = [Respond 200 ''oauth success!'', Respond 200 ''oauth success!'']\<rparr> []
   \<and> filter (\<lambda>e. is_respond e \<or> is_close e)
        (trace (snd (requestByNative (env0 (response0 200 ''OK'')
           [[Request (Some ''/cb?state=abcDEF1234&code=xyz''),
             Request (Some ''/cb?state=abcDEF1234&code=other'')]]) config0 (world0 None))))
       = [Respond 200 ''oauth success!'', Respond 200 ''oauth success!'', ServerClose]"
proof -
  let ?u = "''/cb?state=abcDEF1234&code=xyz''"
  let ?u2 = "''/cb?state=abcDEF1234&code=other''"
  let ?env = "env0 (response0 200 ''OK'') [[Request (Some ?u), Request (Some ?u2)]]"
  let ?W = "openUrl (authorize_url config0 (generateCodeChallenge (generateCodeVerifier ?env))
                       (randomstring ?env 10)) (emit (Listen 3001) (world0 None))"
  let ?req = "exchange_request ?env config0 (QStr ''xyz'') (generateCodeVerifier ?env)"
  have n: "?u \<noteq> []" by simp
  have p: "url_parse ?env ?u = Inr (plain_query ?u)"
    by (simp add: env0_fields plain_parse_def)
  have s: "plain_query ?u ''state'' = QStr ''abcDEF1234''" by code_simp
  have k: "plain_query ?u ''code'' = QStr ''xyz''" by code_simp
  have t: "truthy_q (plain_query ?u ''code'')" using k by simp
  have v2: "valid_callback ?env ''abcDEF1234'' (Request (Some ?u2))" by code_simp
  have b: "\<forall>e \<in> set [Request (Some ?u2)]. parsed ?env e" by code_simp
  have a0: "\<forall>e \<in> set (concat [] @ []). parsed ?env e \<and> \<not> valid_callback ?env ''abcDEF1234'' e"
    by simp
  have c: "cache (world0 None) = None" by (simp add: world0_def)
  have aw: "await_code ?env ''abcDEF1234'' [[Request (Some ?u), Request (Some ?u2)]] W
           = Resumed (Fulfilled (QStr ''xyz''))
               (W\<lparr>trace := trace W @ [Respond 200 ''oauth success!'', Respond 200 ''oauth success!'']\<rparr>) []"
    for W
    using await_code_first_valid [OF a0 n p s t b, of "[]" W] k v2
    by (simp add: answer_def del: await_code.simps)
  have 1: "await_code ?env ''abcDEF1234''
             [[Request (Some ?u), Request (Some ?u2)]] (world0 None)
           = Resumed (Fulfilled (QStr ''xyz''))
               \<lparr>cache = None, trace = [Respond 200 ''oauth success!'', Respond 200 ''oauth success!'']\<rparr> []"
    using aw [of "world0 None"] by (simp add: world0_def del: await_code.simps)
  have "await_code ?env (randomstring ?env 10) (incoming ?env) ?W
          = Resumed (Fulfilled (QStr ''xyz''))
              (?W\<lparr>trace := trace ?W @ [Respond 200 ''oauth success!'', Respond 200 ''oauth success!'']\<rparr>) []"
    using aw [of ?W] by (simp add: env0_fields del: await_code.simps)
  from requestByNative_interactive [OF c this]
  have "requestByNative ?env config0 (world0 None) =
          exchange ?env config0 (QStr ''xyz'') (generateCodeVerifier ?env)
            (emit ServerClose
               (?W\<lparr>trace := trace ?W @ [Respond 200 ''oauth success!'', Respond 200 ''oauth success!'']\<rparr>))" .
  moreover have "JSON_parse (body (response0 200 ''OK'')) =
       Inr (JObj [(''access_token'', JStr ''new''), (''token_type'', JStr ''Bearer''),
                  (''expires_in'', JNum 1199), (''refresh_token'', JStr ''r2'')])"
    by code_simp
  ultimately have "trace (snd (requestByNative ?env config0 (world0 None))) =
      trace ?W @ [Respond 200 ''oauth success!'', Respond 200 ''oauth success!'', ServerClose, Fetch ?req]"
    by (simp add: exchange_def exchange_send_def exchange_receive_def env0_fields emit_def
          saveTokenToCache_def response0_def)
  then have 2: "filter (\<lambda>e. is_respond e \<or> is_close e)
        (trace (snd (requestByNative ?env config0 (world0 None))))
       = [Respond 200 ''oauth success!'', Respond 200 ''oauth success!'', ServerClose]"
    by (simp add: openUrl_def emit_def world0_def is_close_def)
  show ?thesis
    using 1 2 v2 by (simp add: env0_fields del: await_code.simps)
qed

text \<open>
  C4, amended. Take the first valid callback: a request whose URL the parser reads, with
  the generated \<open>state\<close> and a truthy \<open>code\<close>, that comes after requests which are all
  parsed and not valid, in the same turn (\<open>a\<close>) and in the turns \<open>before\<close>. It is answered
  with status 200 and \<open>oauth success!\<close>, and it fulfils the promise with its \<open>code\<close> as the
  query holds it. The function resumes after the turn of that callback, with that code,
  and only then closes the server and posts the code, once. A settled promise never
  changes: the authorization is resolved once. The requests that still reach the handler,
  the rest of the turn (\<open>b\<close>) and any later one, are answered as before, \<open>oauth success!\<close>
  to a valid one, and leave the promise as it is.
\<close>

theorem first_valid_callback_resolves_once:
  assumes "\<forall>e \<in> set (concat before @ a). parsed env e \<and> \<not> valid_callback env state e"
    and "u \<noteq> []" and "url_parse env u = Inr query" and "query ''state'' = QStr state"
    and "truthy_q (query ''code'')"
    and "\<forall>e \<in> set b. parsed env e"
  shows "on_request env state (Some u) (None, w) =
           Inr (Some (Fulfilled (query ''code'')), emit (Respond 200 ''oauth success!'') w)
       \<and> await_code env state (before @ (a @ Request (Some u) # b) # after) w =
           Resumed (Fulfilled (query ''code''))
             (w\<lparr>trace := trace w @ replicate (length (concat before @ a)) (Respond 200 [])
                              @ Respond 200 ''oauth success!'' # map (answer env state) b\<rparr>)
             after
       \<and> (\<forall>ev pw pw' x. fst pw = Some x \<and> on_event env state ev pw = Inr pw' \<longrightarrow> fst pw' = Some x)
       \<and> (\<forall>ev x w'. parsed env ev \<longrightarrow>
            on_event env state ev (Some x, w') = Inr (Some x, emit (answer env state ev) w'))
       \<and> (cache w = None \<and> state = randomstring env 10
            \<and> incoming env = before @ (a @ Request (Some u) # b) # after \<longrightarrow>
          (\<exists>es. trace (snd (requestByNative env config w)) =
                  trace w @ Listen 3001
                    # Exec (''start '' @ [CHR 0x22, CHR 0x22, CHR '' '', CHR 0x22]
                            @ authorize_url config (generateCodeChallenge (generateCodeVerifier env)) state
                            @ [CHR 0x22])
                    # replicate (length (concat before @ a)) (Respond 200 [])
                    @ Respond 200 ''oauth success!'' # map (answer env state) b
                    @ ServerClose
                    # Fetch (exchange_request env config (query ''code'') (generateCodeVerifier env))
                    # es
                \<and> (\<forall>e \<in> set es. \<not> is_fetch e)))"
proof (intro conjI allI impI)
  show "on_request env state (Some u) (None, w) =
           Inr (Some (Fulfilled (query ''code'')), emit (Respond 200 ''oauth success!'') w)"
    by (simp add: on_request_valid [OF assms(2-5)] settle_None)
  show "await_code env state (before @ (a @ Request (Some u) # b) # after) w =
           Resumed (Fulfilled (query ''code''))
             (w\<lparr>trace := trace w @ replicate (length (concat before @ a)) (Respond 200 [])
                              @ Respond 200 ''oauth success!'' # map (answer env state) b\<rparr>)
             after"
    by (rule await_code_first_valid [OF assms])
next
  fix ev x and pw pw' :: "promise \<times> world"
  assume "fst pw = Some x \<and> on_event env state ev pw = Inr pw'"
  then show "fst pw' = Some x"
    using on_event_once [where pw = pw and x = x and pw' = pw'] by blast
next
  fix ev x w'
  assume "parsed env ev"
  then show "on_event env state ev (Some x, w') = Inr (Some x, emit (answer env state ev) w')"
    by (rule on_event_settled)
next
  assume h: "cache w = None \<and> state = randomstring env 10
               \<and> incoming env = before @ (a @ Request (Some u) # b) # after"
  let ?W = "openUrl (authorize_url config (generateCodeChallenge (generateCodeVerifier env))
                       (randomstring env 10)) (emit (Listen 3001) w)"
  let ?w3 = "?W\<lparr>trace := trace ?W @ replicate (length (concat before @ a)) (Respond 200 [])
                              @ Respond 200 ''oauth success!'' # map (answer env state) b\<rparr>"
  have "await_code env (randomstring env 10) (incoming env) ?W =
          Resumed (Fulfilled (query ''code'')) ?w3 after"
    using await_code_first_valid [OF assms, of after ?W] h by simp
  moreover have "cache w = None" using h by simp
  ultimately obtain es where
    es: "trace (snd (requestByNative env config w)) =
            trace ?w3 @ ServerClose
              # Fetch (exchange_request env config (query ''code'') (generateCodeVerifier env)) # es"
        "\<forall>e \<in> set es. \<not> is_fetch e"
    using requestByNative_resumed_trace [of w env config "query ''code''" ?w3 after] by blast
  have "trace (snd (requestByNative env config w)) =
                  trace w @ Listen 3001
                    # Exec (''start '' @ [CHR 0x22, CHR 0x22, CHR '' '', CHR 0x22]
                            @ authorize_url config (generateCodeChallenge (generateCodeVerifier env)) state
                            @ [CHR 0x22])
                    # replicate (length (concat before @ a)) (Respond 200 [])
                    @ Respond 200 ''oauth success!'' # map (answer env state) b
                    @ ServerClose
                    # Fetch (exchange_request env config (query ''code'') (generateCodeVerifier env))
                    # es"
    using es(1) h by (simp add: openUrl_def emit_def)
  then show "\<exists>es. trace (snd (requestByNative env config w)) =
                  trace w @ Listen 3001
                    # Exec (''start '' @ [CHR 0x22, CHR 0x22, CHR '' '', CHR 0x22]
                            @ authorize_url config (generateCodeChallenge (generateCodeVerifier env)) state
                            @ [CHR 0x22])
                    # replicate (length (concat before @ a)) (Respond 200 [])
                    @ Respond 200 ''oauth success!'' # map (answer env state) b
                    @ ServerClose
                    # Fetch (exchange_request env config (query ''code'') (generateCodeVerifier env))
                    # es
                \<and> (\<forall>e \<in> set es. \<not> is_fetch e)"
    using es(2) by blast
qed

theorem first_valid_callback_resolves_once_witness:
  "randomstring (env0 (response0 200 ''OK'')
        [[Request (Some ''/cb?code=xyz&state=stale'')],
         [Request (Some ''/cb?state=abcDEF1234''), Request (Some ''/cb?state=abcDEF1234&code=xyz''),
          Request (Some ''/cb?state=abcDEF1234&code=other'')]]) 10 = ''abcDEF1234''
   \<and> url_parse (env0 (response0 200 ''OK'')
        [[Request (Some ''/cb?code=xyz&state=stale'')],
         [Request (Some ''/cb?state=abcDEF1234''), Request (Some ''/cb?state=abcDEF1234&code=xyz''),
          Request (Some ''/cb?state=abcDEF1234&code=other'')]]) ''/cb?state=abcDEF1234&code=xyz''
       = Inr (plain_query ''/cb?state=abcDEF1234&code=xyz'')
   \<and> plain_query ''/cb?state=abcDEF1234&code=xyz'' ''state'' = QStr ''abcDEF1234''
   \<and> plain_query ''/cb?state=abcDEF1234&code=xyz'' ''code'' = QStr ''xyz''
   \<and> on_request (env0 (response0 200 ''OK'')
        [[Request (Some ''/cb?code=xyz&state=stale'')],
         [Request (Some ''/cb?state=abcDEF1234''), Request (Some ''/cb?state=abcDEF1234&code=xyz''),
          Request (Some ''/cb?state=abcDEF1234&code=other'')]])
        ''abcDEF1234'' (Some ''/cb?state=abcDEF1234&code=xyz'') (None, world0 None)
       = Inr (Some (Fulfilled (QStr ''xyz'')), emit (Respond 200 ''oauth success!'') (world0 None))
   \<and> await_code (env0 (response0 200 ''OK'')
        [[Request (Some ''/cb?code=xyz&state=stale'')],
         [Request (Some ''/cb?state=abcDEF1234''), Request (Some ''/cb?state=abcDEF1234&code=xyz''),
          Request (Some ''/cb?state=abcDEF1234&code=other'')]])
        ''abcDEF1234''
        [[Request (Some ''/cb?code=xyz&state=stale'')],
         [Request (Some ''/cb?state=abcDEF1234''), Request (Some ''/cb?state=abcDEF1234&code=xyz''),
          Request (Some ''/cb?state=abcDEF1234&code=other'')]]
        (world0 None)
       = Resumed (Fulfilled (QStr ''xyz''))
           \<lparr>cache = None,
            trace = [Respond 200 [], Respond 200 [], Respond 200 ''oauth success!'',
                     Respond 200 ''oauth success!'']\<rparr> []
   \<and> on_event (env0 (response0 200 ''OK'')
        [[Request (Some ''/cb?code=xyz&state=stale'')],
         [Request (Some ''/cb?state=abcDEF1234''), Request (Some ''/cb?state=abcDEF1234&code=xyz''),
          Request (Some ''/cb?state=abcDEF1234&code=other'')]])
        ''abcDEF1234'' (Request (Some ''/cb?state=abcDEF1234&code=other''))
        (Some (Fulfilled (QStr ''xyz'')), world0 None)
       = Inr (Some (Fulfilled (QStr ''xyz'')), emit (Respond 200 ''oauth success!'') (world0 None))
   \<and> (\<exists>es. trace (snd (requestByNative (env0 (response0 200 ''OK'')
        [[Request (Some ''/cb?code=xyz&state=stale'')],
         [Request (Some ''/cb?state=abcDEF1234''), Request (Some ''/cb?state=abcDEF1234&code=xyz''),
          Request (Some ''/cb?state=abcDEF1234&code=other'')]]) config0 (world0 None)))
       = Listen 3001
           # Exec (''start '' @ [CHR 0x22, CHR 0x22, CHR '' '', CHR 0x22]
                   @ authorize_url config0
                       (generateCodeChallenge (generateCodeVerifier (env0 (response0 200 ''OK'')
                          [[Request (Some ''/cb?code=xyz&state=stale'')],
                           [Request (Some ''/cb?state=abcDEF1234''),
                            Request (Some ''/cb?state=abcDEF1234&code=xyz''),
                            Request (Some ''/cb?state=abcDEF1234&code=other'')]])))
                       ''abcDEF1234''
                   @ [CHR 0x22])
           # [Respond 200 [], Respond 200 [], Respond 200 ''oauth success!'',
              Respond 200 ''oauth success!'', ServerClose,
              Fetch (exchange_request (env0 (response0 200 ''OK'')
                          [[Request (Some ''/cb?code=xyz&state=stale'')],
                           [Request (Some ''/cb?state=abcDEF1234''),
                            Request (Some ''/cb?state=abcDEF1234&code=xyz''),
                            Request (Some ''/cb?state=abcDEF1234&code=other'')]])
                       config0 (QStr ''xyz'')
                       (generateCodeVerifier (env0 (response0 200 ''OK'')
                          [[Request (Some ''/cb?code=xyz&state=stale'')],
                           [Request (Some ''/cb?state=abcDEF1234''),
                            Request (Some ''/cb?state=abcDEF1234&code=xyz''),
                            Request (Some ''/cb?state=abcDEF1234&code=other'')]])))]
           @ es
       \<and> (\<forall>e \<in> set es. \<not> is_fetch e))"
proof -
  let ?s = "''/cb?code=xyz&state=stale''"
  let ?n = "''/cb?state=abcDEF1234''"
  let ?u = "''/cb?state=abcDEF1234&code=xyz''"
  let ?u2 = "''/cb?state=abcDEF1234&code=other''"
  let ?env = "env0 (response0 200 ''OK'')
      [[Request (Some ?s)], [Request (Some ?n), Request (Some ?u), Request (Some ?u2)]]"
  have n: "?u \<noteq> []" by simp
  have p: "url_parse ?env ?u = Inr (plain_query ?u)"
    by (simp add: env0_fields plain_parse_def)
  have s: "plain_query ?u ''state'' = QStr ''abcDEF1234''" by code_simp
  have k: "plain_query ?u ''code'' = QStr ''xyz''" by code_simp
  have t: "truthy_q (plain_query ?u ''code'')" using k by simp
  have r1: "parsed ?env (Request (Some ?s)) \<and> \<not> valid_callback ?env ''abcDEF1234'' (Request (Some ?s))"
    by code_simp
  have r2: "parsed ?env (Request (Some ?n)) \<and> \<not> valid_callback ?env ''abcDEF1234'' (Request (Some ?n))"
    by code_simp
  have v2: "parsed ?env (Request (Some ?u2)) \<and> valid_callback ?env ''abcDEF1234'' (Request (Some ?u2))"
    by code_simp
  have a: "\<forall>e \<in> set (concat [[Request (Some ?s)]] @ [Request (Some ?n)]).
             parsed ?env e \<and> \<not> valid_callback ?env ''abcDEF1234'' e"
    using r1 r2 by simp
  have b: "\<forall>e \<in> set [Request (Some ?u2)]. parsed ?env e"
    using v2 by simp
  have c: "cache (world0 None) = None" by (simp add: world0_def)
  from first_valid_callback_resolves_once [OF a n p s t b, of "world0 None" "[]" config0]
  show ?thesis
    using p s k v2 c
    by (simp add: env0_fields answer_def world0_def emit_def del: await_code.simps)
qed

section \<open>The exchange of the code\<close>

text \<open>
  C6, as stated: a response with a 2xx status never makes the exchange raise. The code
  compares the status with 200: a response \<open>201 Created\<close> is \<open>ok\<close>, and the exchange raises
  an \<open>Error\<close> with its status text.
\<close>

theorem exchange_rejects_201:
  "ok (response0 201 ''Created'')
   \<and> fetch (env0 (response0 201 ''Created'') [])
        (exchange_request (env0 (response0 201 ''Created'') []) config0 (QStr ''xyz'') ''verifier'')
       = Inr (response0 201 ''Created'')
   \<and> fst (exchange (env0 (response0 201 ''Created'') []) config0 (QStr ''xyz'') ''verifier'' (world0 None))
       = Threw (Error ''Created'')"
  by code_simp

text \<open>
  C6, amended: the exchange POSTs \<open>grant_type=authorization_code\<close>, \<open>client_id\<close>, \<open>code\<close>
  and \<open>code_verifier\<close> to the token endpoint, in one request only; on a response whose
  status is not 200 it raises an \<open>Error\<close> whose message is the status text and leaves the
  cache as it was; on a response with status 200 and a JSON body it returns the parsed
  body and writes it to the cache. The \<open>code_verifier\<close> that \<open>requestByNative\<close> passes is
  the verifier it generated, whose challenge went into the authorization URL: the one
  request it sends, right after it has closed the server, is that of the exchange with
  the code received and that verifier, and the call ends as the exchange does, unless a
  handler of the listener ends the process first; when nothing reaches the listener in
  the meantime, the rest of the call is the exchange.
\<close>

theorem exchange_posts_verifier_and_checks_200:
  "url (exchange_request env config code code_verifier) = ''https://login.eveonline.com/v2/oauth/token''
   \<and> req_method (exchange_request env config code code_verifier) = ''POST''
   \<and> req_body (exchange_request env config code code_verifier) =
       Some (''grant_type=authorization_code&client_id='' @ client_id config
             @ ''&code='' @ q_ToString code @ ''&code_verifier='' @ code_verifier)
   \<and> (\<exists>es. trace (snd (exchange env config code code_verifier w)) =
          trace w @ Fetch (exchange_request env config code code_verifier) # es
          \<and> (\<forall>e \<in> set es. \<not> is_fetch e))
   \<and> (\<forall>rsp. fetch env (exchange_request env config code code_verifier) = Inr rsp
          \<and> status rsp \<noteq> 200 \<longrightarrow>
        fst (exchange env config code code_verifier w) = Threw (Error (statusText rsp))
        \<and> cache (snd (exchange env config code code_verifier w)) = cache w)
   \<and> (\<forall>rsp j. fetch env (exchange_request env config code code_verifier) = Inr rsp
          \<and> status rsp = 200 \<and> JSON_parse (body rsp) = Inr j \<longrightarrow>
        fst (exchange env config code code_verifier w) = Returned (Json j)
        \<and> cache (snd (exchange env config code code_verifier w)) = Some (JSON_stringify j))
   \<and> (\<forall>c w3 rest. cache w = None
          \<and> await_code env (randomstring env 10) (incoming env)
               (openUrl (authorize_url config (generateCodeChallenge (generateCodeVerifier env))
                           (randomstring env 10)) (emit (Listen 3001) w))
             = Resumed (Fulfilled c) w3 rest \<longrightarrow>
        (rest = [] \<longrightarrow>
           requestByNative env config w =
             exchange env config c (generateCodeVerifier env) (emit ServerClose w3))
        \<and> (\<exists>es. trace (snd (requestByNative env config w)) =
                  trace w3 @ ServerClose
                    # Fetch (exchange_request env config c (generateCodeVerifier env)) # es
                \<and> (\<forall>e \<in> set es. \<not> is_fetch e))
        \<and> (fst (requestByNative env config w) =
               fst (exchange env config c (generateCodeVerifier env) (emit ServerClose w3))
             \<or> (\<exists>e. fst (requestByNative env config w) = Uncaught e)))"
proof (intro conjI allI impI)
  show "\<exists>es. trace (snd (exchange env config code code_verifier w)) =
          trace w @ Fetch (exchange_request env config code code_verifier) # es
          \<and> (\<forall>e \<in> set es. \<not> is_fetch e)"
    by (auto simp: exchange_def exchange_send_def exchange_receive_def emit_def
          saveTokenToCache_def is_fetch_def split: sum.splits)
next
  fix c w3 rest
  assume h: "cache w = None
          \<and> await_code env (randomstring env 10) (incoming env)
               (openUrl (authorize_url config (generateCodeChallenge (generateCodeVerifier env))
                           (randomstring env 10)) (emit (Listen 3001) w))
             = Resumed (Fulfilled c) w3 rest"
  then have h1: "cache w = None"
    and h2: "await_code env (randomstring env 10) (incoming env)
               (openUrl (authorize_url config (generateCodeChallenge (generateCodeVerifier env))
                           (randomstring env 10)) (emit (Listen 3001) w))
             = Resumed (Fulfilled c) w3 rest"
    by simp_all
  show "\<exists>es. trace (snd (requestByNative env config w)) =
                  trace w3 @ ServerClose
                    # Fetch (exchange_request env config c (generateCodeVerifier env)) # es
                \<and> (\<forall>e \<in> set es. \<not> is_fetch e)"
    by (rule requestByNative_resumed_trace [OF h1 h2])
  show "fst (requestByNative env config w) =
               fst (exchange env config c (generateCodeVerifier env) (emit ServerClose w3))
             \<or> (\<exists>e. fst (requestByNative env config w) = Uncaught e)"
    by (rule requestByNative_resumed_outcome [OF h1 h2])
  {
    assume "rest = []"
    then show "requestByNative env config w =
             exchange env config c (generateCodeVerifier env) (emit ServerClose w3)"
      using requestByNative_interactive [OF h1, of env config c w3] h2 by simp
  }
qed (auto simp: exchange_request_def token_endpoint_def exchange_def exchange_send_def
      exchange_receive_def emit_def saveTokenToCache_def)

theorem exchange_posts_verifier_and_checks_200_witness:
  "fetch (env0 (response0 200 ''OK'') [[Request (Some ''/cb?state=abcDEF1234&code=xyz'')]])
        (exchange_request (env0 (response0 200 ''OK'') [[Request (Some ''/cb?state=abcDEF1234&code=xyz'')]])
           config0 (QStr ''xyz'') ''verifier'')
     = Inr (response0 200 ''OK'')
   \<and> status (response0 200 ''OK'') = 200
   \<and> JSON_parse (body (response0 200 ''OK'')) =
       Inr (JObj [(''access_token'', JStr ''new''), (''token_type'', JStr ''Bearer''),
                  (''expires_in'', JNum 1199), (''refresh_token'', JStr ''r2'')])
   \<and> fst (exchange (env0 (response0 200 ''OK'') [[Request (Some ''/cb?state=abcDEF1234&code=xyz'')]])
          config0 (QStr ''xyz'') ''verifier'' (world0 None))
       = Returned (Json (JObj [(''access_token'', JStr ''new''), (''token_type'', JStr ''Bearer''),
                  (''expires_in'', JNum 1199), (''refresh_token'', JStr ''r2'')]))
   \<and> req_body (exchange_request (env0 (response0 200 ''OK'')
                   [[Request (Some ''/cb?state=abcDEF1234&code=xyz'')]]) config0 (QStr ''xyz'') ''verifier'')
       = Some ''grant_type=authorization_code&client_id=abc&code=xyz&code_verifier=verifier''
   \<and> await_code (env0 (response0 200 ''OK'') [[Request (Some ''/cb?state=abcDEF1234&code=xyz'')]])
        (randomstring (env0 (response0 200 ''OK'') [[Request (Some ''/cb?state=abcDEF1234&code=xyz'')]]) 10)
        (incoming (env0 (response0 200 ''OK'') [[Request (Some ''/cb?state=abcDEF1234&code=xyz'')]]))
        (openUrl (authorize_url config0
                    (generateCodeChallenge (generateCodeVerifier
                       (env0 (response0 200 ''OK'') [[Request (Some ''/cb?state=abcDEF1234&code=xyz'')]])))
                    (randomstring (env0 (response0 200 ''OK'')
                       [[Request (Some ''/cb?state=abcDEF1234&code=xyz'')]]) 10))
           (emit (Listen 3001) (world0 None)))
       = Resumed (Fulfilled (QStr ''xyz''))
           (emit (Respond 200 ''oauth success!'')
              (openUrl (authorize_url config0
                    (generateCodeChallenge (generateCodeVerifier
                       (env0 (response0 200 ''OK'') [[Request (Some ''/cb?state=abcDEF1234&code=xyz'')]])))
                    (randomstring (env0 (response0 200 ''OK'')
                       [[Request (Some ''/cb?state=abcDEF1234&code=xyz'')]]) 10))
                 (emit (Listen 3001) (world0 None))))
           []
   \<and> requestByNative (env0 (response0 200 ''OK'') [[Request (Some ''/cb?state=abcDEF1234&code=xyz'')]])
        config0 (world0 None)
       = exchange (env0 (response0 200 ''OK'') [[Request (Some ''/cb?state=abcDEF1234&code=xyz'')]])
           config0 (QStr ''xyz'')
           (generateCodeVerifier (env0 (response0 200 ''OK'')
              [[Request (Some ''/cb?state=abcDEF1234&code=xyz'')]]))
           (emit ServerClose
              (emit (Respond 200 ''oauth success!'')
                 (openUrl (authorize_url config0
                    (generateCodeChallenge (generateCodeVerifier
                       (env0 (response0 200 ''OK'') [[Request (Some ''/cb?state=abcDEF1234&code=xyz'')]])))
                    (randomstring (env0 (response0 200 ''OK'')
                       [[Request (Some ''/cb?state=abcDEF1234&code=xyz'')]]) 10))
                 (emit (Listen 3001) (world0 None)))))"
proof -
  let ?u = "''/cb?state=abcDEF1234&code=xyz''"
  let ?env = "env0 (response0 200 ''OK'') [[Request (Some ?u)]]"
  let ?W = "openUrl (authorize_url config0 (generateCodeChallenge (generateCodeVerifier ?env))
                       (randomstring ?env 10)) (emit (Listen 3001) (world0 None))"
  have f: "fetch ?env (exchange_request ?env config0 (QStr ''xyz'') ''verifier'') = Inr (response0 200 ''OK'')"
    by (simp add: env0_def)
  have s: "status (response0 200 ''OK'') = 200"
    by (simp add: response0_def)
  have p: "JSON_parse (body (response0 200 ''OK'')) =
       Inr (JObj [(''access_token'', JStr ''new''), (''token_type'', JStr ''Bearer''),
                  (''expires_in'', JNum 1199), (''refresh_token'', JStr ''r2'')])"
    by code_simp
  have c: "client_id config0 = ''abc''"
    by (simp add: config0_def)
  have n: "cache (world0 None) = None"
    by (simp add: world0_def)
  have q: "url_parse ?env ?u = Inr (plain_query ?u)"
    by (simp add: env0_fields plain_parse_def)
  have qs: "plain_query ?u ''state'' = QStr ''abcDEF1234''" by code_simp
  have qc: "plain_query ?u ''code'' = QStr ''xyz''" by code_simp
  have a: "await_code ?env (randomstring ?env 10) (incoming ?env) ?W
             = Resumed (Fulfilled (QStr ''xyz'')) (emit (Respond 200 ''oauth success!'') ?W) []"
    using q qs qc by (simp add: env0_fields on_event_def on_request_def settle_def)
  from exchange_posts_verifier_and_checks_200 [of ?env config0 "QStr ''xyz''" "''verifier''" "world0 None"]
  show ?thesis using f s p c n a by simp
qed
section \<open>Responses of the resource API\<close>

lemma new_Error_str: "new_Error (Json (JStr m)) = Error m"
  by (simp add: new_Error_def)

lemma read_response_text:
  "content_type rsp \<noteq> Some JSON_UTF8 \<Longrightarrow>
     read_response rsp = (if ok rsp then Inr (Json (JStr (body rsp))) else Inl (Error (body rsp)))"
  by (simp add: read_response_def new_Error_str)

lemma read_response_json:
  "content_type rsp = Some JSON_UTF8 \<Longrightarrow>
     read_response rsp =
       (case JSON_parse (body rsp) of
          Inl e \<Rightarrow> Inl e
        | Inr j \<Rightarrow>
            if ok rsp then Inr (Json j)
            else (case get_prop (Json j) ''error'' of Inl e \<Rightarrow> Inl e | Inr v \<Rightarrow> Inl (new_Error v)))"
  by (simp add: read_response_def split: sum.splits)

lemma get_prop_not_null: "j \<noteq> JNull \<Longrightarrow> \<exists>v. get_prop (Json j) k = Inr v"
  by (cases j) (auto split: option.splits)

lemma request_read:
  "build_request env this path i = Inr req \<Longrightarrow> fetch env req = Inr rsp \<Longrightarrow>
     request env this path (Some i) = read_response rsp"
  by (simp add: request_def)

text \<open>
  C7, as stated: on every response whose status is not 2xx and whose content type is
  \<open>application/json; charset=UTF-8\<close>, the failure that \<open>request\<close> raises carries the
  \<open>error\<close> property of the parsed body. The body is parsed before the status is looked
  at: when it is not JSON (here a gateway answers 504 with an empty body) \<open>request\<close> fails
  with the \<open>SyntaxError\<close> of the parser, and when it is \<open>null\<close> with the \<open>TypeError\<close> of the
  property read.
\<close>

theorem json_error_body_that_does_not_parse:
  "\<not> ok \<lparr>status = 504, statusText = ''Gateway Timeout'', content_type = Some JSON_UTF8, body = []\<rparr>
   \<and> read_response \<lparr>status = 504, statusText = ''Gateway Timeout'', content_type = Some JSON_UTF8,
                        body = []\<rparr> = Inl SyntaxError
   \<and> read_response \<lparr>status = 500, statusText = ''Internal Server Error'',
                        content_type = Some JSON_UTF8, body = ''null''\<rparr> = Inl TypeError"
  by code_simp

text \<open>
  C7, amended: on a response whose status is not 2xx, \<open>request\<close> raises a failure. When
  the content type is \<open>application/json; charset=UTF-8\<close> and the body parses to a value
  other than \<open>null\<close>, the failure is \<open>new Error\<close> of the \<open>error\<close> property of the parsed body:
  its message is that property when it is a string. When the body does not parse, the
  failure is the \<open>SyntaxError\<close> of the parser, and when it parses to \<open>null\<close> it is a
  \<open>TypeError\<close>. With any other content type the message is the text of the body.
\<close>

theorem non_2xx_raises_error_message:
  assumes "\<not> ok rsp"
  shows "(\<exists>e. read_response rsp = Inl e)
       \<and> (content_type rsp = Some JSON_UTF8 \<longrightarrow>
            (\<forall>j. JSON_parse (body rsp) = Inr j \<and> j \<noteq> JNull \<longrightarrow>
               (\<exists>v. get_prop (Json j) ''error'' = Inr v \<and> read_response rsp = Inl (new_Error v)))
          \<and> (\<forall>j m. JSON_parse (body rsp) = Inr j
                 \<and> get_prop (Json j) ''error'' = Inr (Json (JStr m)) \<longrightarrow>
               read_response rsp = Inl (Error m))
          \<and> (JSON_parse (body rsp) = Inl SyntaxError \<longrightarrow> read_response rsp = Inl SyntaxError)
          \<and> (JSON_parse (body rsp) = Inr JNull \<longrightarrow> read_response rsp = Inl TypeError))
       \<and> (content_type rsp \<noteq> Some JSON_UTF8 \<longrightarrow> read_response rsp = Inl (Error (body rsp)))
       \<and> (\<forall>env this path i req. build_request env this path i = Inr req \<and> fetch env req = Inr rsp \<longrightarrow>
            request env this path (Some i) = read_response rsp)"
proof (intro conjI allI impI)
  show "\<exists>e. read_response rsp = Inl e"
  proof (cases "content_type rsp = Some JSON_UTF8")
    case True
    then show ?thesis using assms
      by (auto simp: read_response_json split: sum.splits)
  next
    case False
    then show ?thesis using assms by (simp add: read_response_text)
  qed
next
  fix j
  assume ct: "content_type rsp = Some JSON_UTF8" and j: "JSON_parse (body rsp) = Inr j \<and> j \<noteq> JNull"
  from get_prop_not_null [of j "''error''"] j obtain v where v: "get_prop (Json j) ''error'' = Inr v"
    by blast
  then show "\<exists>v. get_prop (Json j) ''error'' = Inr v \<and> read_response rsp = Inl (new_Error v)"
    using ct j assms by (simp add: read_response_json)
next
  fix j m
  assume "content_type rsp = Some JSON_UTF8"
    and "JSON_parse (body rsp) = Inr j \<and> get_prop (Json j) ''error'' = Inr (Json (JStr m))"
  then show "read_response rsp = Inl (Error m)"
    using assms by (simp add: read_response_json new_Error_str)
next
  assume "content_type rsp = Some JSON_UTF8" and "JSON_parse (body rsp) = Inl SyntaxError"
  then show "read_response rsp = Inl SyntaxError"
    by (simp add: read_response_json)
next
  assume "content_type rsp = Some JSON_UTF8" and "JSON_parse (body rsp) = Inr JNull"
  then show "read_response rsp = Inl TypeError"
    using assms by (simp add: read_response_json)
next
  assume "content_type rsp \<noteq> Some JSON_UTF8"
  then show "read_response rsp = Inl (Error (body rsp))"
    using assms by (simp add: read_response_text)
next
  fix env this path i req
  assume "build_request env this path i = Inr req \<and> fetch env req = Inr rsp"
  then show "request env this path (Some i) = read_response rsp"
    by (simp add: request_read)
qed

theorem non_2xx_raises_error_message_witness:
  "\<not> ok \<lparr>status = 404, statusText = ''Not Found'', content_type = Some JSON_UTF8,
            body = ''{\"error\":\"Type not found!\"}''\<rparr>
   \<and> JSON_parse ''{\"error\":\"Type not found!\"}'' = Inr (JObj [(''error'', JStr ''Type not found!'')])
   \<and> read_response \<lparr>status = 404, statusText = ''Not Found'', content_type = Some JSON_UTF8,
            body = ''{\"error\":\"Type not found!\"}''\<rparr> = Inl (Error ''Type not found!'')
   \<and> \<not> ok \<lparr>status = 502, statusText = ''Bad Gateway'', content_type = Some ''text/html'',
            body = ''<h1>Bad Gateway</h1>''\<rparr>
   \<and> read_response \<lparr>status = 502, statusText = ''Bad Gateway'', content_type = Some ''text/html'',
            body = ''<h1>Bad Gateway</h1>''\<rparr> = Inl (Error ''<h1>Bad Gateway</h1>'')"
proof -
  let ?a = "\<lparr>status = 404, statusText = ''Not Found'', content_type = Some JSON_UTF8,
            body = ''{\"error\":\"Type not found!\"}''\<rparr>"
  let ?b = "\<lparr>status = 502, statusText = ''Bad Gateway'', content_type = Some ''text/html'',
            body = ''<h1>Bad Gateway</h1>''\<rparr>"
  have a: "\<not> ok ?a" by (simp add: ok_def)
  have b: "\<not> ok ?b" by (simp add: ok_def)
  have p: "JSON_parse ''{\"error\":\"Type not found!\"}'' = Inr (JObj [(''error'', JStr ''Type not found!'')])"
    by code_simp
  have t: "content_type ?b \<noteq> Some JSON_UTF8" by (simp add: JSON_UTF8_def)
  from non_2xx_raises_error_message [OF a] p
  have 1: "read_response ?a = Inl (Error ''Type not found!'')" by (simp add: new_Error_str)
  from non_2xx_raises_error_message [OF b] t
  have 2: "read_response ?b = Inl (Error ''<h1>Bad Gateway</h1>'')" by simp
  from a b p 1 2 show ?thesis by blast
qed

text \<open>
  C8. The body is parsed as JSON exactly when the content type is
  \<open>application/json; charset=UTF-8\<close>, whatever the status: with that content type a body
  that does not parse makes \<open>request\<close> fail with the \<open>SyntaxError\<close> under every status, and a
  body that parses is returned parsed when the status is 2xx; with any other content type
  the body is never parsed, and under every status the result is built from its text
  (returned when the status is 2xx, the message of the failure otherwise).
\<close>

theorem body_parsed_iff_json_content_type:
  "(content_type rsp = Some JSON_UTF8 \<longrightarrow>
      (\<forall>s. JSON_parse (body rsp) = Inl SyntaxError \<longrightarrow>
           read_response (rsp\<lparr>status := s\<rparr>) = Inl SyntaxError)
    \<and> (\<forall>j. JSON_parse (body rsp) = Inr j \<and> ok rsp \<longrightarrow> read_response rsp = Inr (Json j)))
   \<and> (content_type rsp \<noteq> Some JSON_UTF8 \<longrightarrow>
      (\<forall>s. read_response (rsp\<lparr>status := s\<rparr>) =
            (if ok (rsp\<lparr>status := s\<rparr>) then Inr (Json (JStr (body rsp)))
             else Inl (Error (body rsp)))))"
  by (simp add: read_response_json read_response_text)

theorem body_parsed_iff_json_content_type_witness:
  "read_response \<lparr>status = 200, statusText = ''OK'', content_type = Some JSON_UTF8, body = ''[1,2]''\<rparr>
     = Inr (Json (JArr [JNum 1, JNum 2]))
   \<and> read_response (\<lparr>status = 200, statusText = ''OK'', content_type = Some ''application/json'',
                      body = ''[1,2]''\<rparr>\<lparr>status := 200\<rparr>)
     = Inr (Json (JStr ''[1,2]''))
   \<and> read_response (\<lparr>status = 200, statusText = ''OK'', content_type = Some ''application/json'',
                      body = ''[1,2]''\<rparr>\<lparr>status := 500\<rparr>)
     = Inl (Error ''[1,2]'')"
proof -
  let ?a = "\<lparr>status = 200, statusText = ''OK'', content_type = Some JSON_UTF8, body = ''[1,2]''\<rparr>"
  let ?b = "\<lparr>status = 200, statusText = ''OK'', content_type = Some ''application/json'',
             body = ''[1,2]''\<rparr>"
  have p: "JSON_parse ''[1,2]'' = Inr (JArr [JNum 1, JNum 2])" by code_simp
  have a: "ok ?a" by (simp add: ok_def)
  have t: "content_type ?b \<noteq> Some JSON_UTF8" by (simp add: JSON_UTF8_def)
  from body_parsed_iff_json_content_type [of ?a] p a
  have 1: "read_response ?a = Inr (Json (JArr [JNum 1, JNum 2]))" by simp
  from body_parsed_iff_json_content_type [of ?b] t
  have 2: "\<forall>s. read_response (?b\<lparr>status := s\<rparr>) =
            (if ok (?b\<lparr>status := s\<rparr>) then Inr (Json (JStr (body ?b))) else Inl (Error (body ?b)))"
    by blast
  from 2 have 3: "read_response (?b\<lparr>status := 200\<rparr>) = Inr (Json (JStr ''[1,2]''))"
    by (simp add: ok_def)
  from 2 have 4: "read_response (?b\<lparr>status := 500\<rparr>) = Inl (Error ''[1,2]'')"
    by (simp add: ok_def)
  from 1 3 4 show ?thesis by blast
qed

section \<open>The query string of a request\<close>

lemma append_params_prefix:
  "append_params kvs acc = Inr ps \<Longrightarrow>
     \<exists>rest. ps = acc @ rest \<and> map fst rest = map fst (filter (\<lambda>kv. truthy (snd kv)) kvs)"
proof (induction kvs arbitrary: acc)
  case Nil
  then show ?case by simp
next
  case (Cons kv kvs)
  obtain k v where kv: "kv = (k, v)" by (cases kv)
  show ?case
  proof (cases "truthy v")
    case True
    with Cons.prems kv obtain s where s: "js_ToString v = Inr s"
      and r: "append_params kvs (acc @ [(k, s)]) = Inr ps"
      by (auto split: sum.splits)
    from Cons.IH [OF r] obtain rest where
      "ps = (acc @ [(k, s)]) @ rest" "map fst rest = map fst (filter (\<lambda>kv. truthy (snd kv)) kvs)"
      by blast
    then show ?thesis using True kv by simp
  next
    case False
    with Cons.prems kv have "append_params kvs acc = Inr ps" by simp
    from Cons.IH [OF this] show ?thesis using False kv by simp
  qed
qed

lemma params_toString_Cons:
  "params_toString ((k, v) # rest) =
     form_encode k @ ''='' @ form_encode v @ (if rest = [] then [] else ''&'' @ params_toString rest)"
  by (cases rest) (simp_all add: params_toString_def)

lemma form_encode_datasource:
  "form_encode ''datasource'' = ''datasource''" "form_encode ''tranquility'' = ''tranquility''"
  by code_simp+

lemma datasource_ESIClient: "datasource (ESIClient options) = ''tranquility''"
  by (simp add: ESIClient_def Let_def)

lemma request_params_first:
  assumes "request_params (ESIClient options) i = Inr ps"
  shows "\<exists>rest. ps = (''datasource'', ''tranquility'') # rest
          \<and> map fst rest = map fst (filter (\<lambda>kv. truthy (snd kv)) (case init_params i of None \<Rightarrow> [] | Some kvs \<Rightarrow> kvs))"
proof (cases "init_params i")
  case None
  with assms show ?thesis
    by (simp add: request_params_def datasource_ESIClient)
next
  case (Some kvs)
  with assms have "append_params kvs [(''datasource'', ''tranquility'')] = Inr ps"
    by (simp add: request_params_def datasource_ESIClient)
  from append_params_prefix [OF this] Some show ?thesis by simp
qed

text \<open>
  C10. Whatever options the constructor is given, a \<open>datasource\<close> among them too, the
  client's \<open>datasource\<close> is \<open>tranquility\<close>; the parameters of every request start with
  \<open>datasource=tranquility\<close>, followed by the truthy parameters of the caller in their order,
  and the URL is the base URL, the version and the path followed by
  \<open>?datasource=tranquility\<close> and then nothing or \<open>&\<close>.
\<close>

theorem datasource_is_tranquility_and_first:
  "datasource (ESIClient options) = ''tranquility''
   \<and> (\<forall>ps. request_params (ESIClient options) i = Inr ps \<longrightarrow>
        (\<exists>rest. ps = (''datasource'', ''tranquility'') # rest
           \<and> map fst rest = map fst (filter (\<lambda>kv. truthy (snd kv))
                                   (case init_params i of None \<Rightarrow> [] | Some kvs \<Rightarrow> kvs))))
   \<and> (\<forall>req. build_request env (ESIClient options) path i = Inr req \<longrightarrow>
        (\<exists>rest. url req = baseURL (ESIClient options) @ ''/'' @ version (ESIClient options) @ path
                           @ ''?datasource=tranquility'' @ rest
           \<and> (rest = [] \<or> hd rest = CHR ''&'')))"
proof (intro conjI allI impI)
  show "datasource (ESIClient options) = ''tranquility''"
    by (rule datasource_ESIClient)
next
  fix ps
  assume "request_params (ESIClient options) i = Inr ps"
  then show "\<exists>rest. ps = (''datasource'', ''tranquility'') # rest
           \<and> map fst rest = map fst (filter (\<lambda>kv. truthy (snd kv))
                                   (case init_params i of None \<Rightarrow> [] | Some kvs \<Rightarrow> kvs))"
    by (rule request_params_first)
next
  fix req
  assume b: "build_request env (ESIClient options) path i = Inr req"
  then obtain ps where ps: "request_params (ESIClient options) i = Inr ps"
    and u: "url req = baseURL (ESIClient options) @ ''/'' @ version (ESIClient options) @ path
                 @ ''?'' @ params_toString ps"
    by (auto simp: build_request_def split: sum.splits)
  from request_params_first [OF ps] obtain rest where
    rest: "ps = (''datasource'', ''tranquility'') # rest" by blast
  have "params_toString ps = ''datasource=tranquility''
          @ (if rest = [] then [] else ''&'' @ params_toString rest)"
    unfolding rest params_toString_Cons form_encode_datasource by simp
  with u show "\<exists>rest. url req = baseURL (ESIClient options) @ ''/'' @ version (ESIClient options) @ path
                           @ ''?datasource=tranquility'' @ rest
           \<and> (rest = [] \<or> hd rest = CHR ''&'')"
    by (intro exI [of _ "if rest = [] then [] else ''&'' @ params_toString rest"]) simp
qed

theorem datasource_is_tranquility_and_first_witness:
  "datasource (ESIClient (Some \<lparr>opt_baseURL = None, opt_version = None, opt_token = None,
                               opt_language = None, opt_datasource = Some ''singularity''\<rparr>))
     = ''tranquility''
   \<and> build_request (env0 (response0 200 ''OK'') [])
        (ESIClient (Some \<lparr>opt_baseURL = None, opt_version = None, opt_token = None,
                          opt_language = None, opt_datasource = Some ''singularity''\<rparr>))
        ''/universe/types/'' (no_init\<lparr>init_params := Some [(''page'', Json (JNum 2))]\<rparr>)
     = Inr \<lparr>url = ''https://esi.evetech.net/latest/universe/types/?datasource=tranquility&page=2'',
            req_method = ''GET'',
            headers = [(''accept'', ''application/json''), (''cache-control'', ''no-cache''),
                       (''accept-language'', ''zh'')],
            req_body = None, agent = None\<rparr>"
proof -
  let ?o = "Some \<lparr>opt_baseURL = None, opt_version = None, opt_token = None,
                  opt_language = None, opt_datasource = Some ''singularity''\<rparr>"
  have b: "build_request (env0 (response0 200 ''OK'') []) (ESIClient ?o)
        ''/universe/types/'' (no_init\<lparr>init_params := Some [(''page'', Json (JNum 2))]\<rparr>)
     = Inr \<lparr>url = ''https://esi.evetech.net/latest/universe/types/?datasource=tranquility&page=2'',
            req_method = ''GET'',
            headers = [(''accept'', ''application/json''), (''cache-control'', ''no-cache''),
                       (''accept-language'', ''zh'')],
            req_body = None, agent = None\<rparr>"
    by code_simp
  from datasource_is_tranquility_and_first [of ?o] b show ?thesis by blast
qed

section \<open>The parser consumes its input and never reaches its bound\<close>

lemma length_skip_ws: "length (skip_ws s) \<le> length s"
  by (simp add: skip_ws_def length_dropWhile_le)

lemma skip_ws_Cons_length: "skip_ws s = c # cs \<Longrightarrow> length cs < length s"
  using length_skip_ws [of s] by simp

lemma cons_char_Inr: "cons_char c x = Inr (k, r) \<Longrightarrow> \<exists>k'. x = Inr (k', r)"
  by (auto simp: cons_char_def split: sum.splits)

lemma cons_char_fuel: "x \<noteq> Inl OutOfFuel \<Longrightarrow> cons_char c x \<noteq> Inl OutOfFuel"
  by (auto simp: cons_char_def split: sum.splits)

lemma parse_chars_step:
  "parse_chars s = Inl SyntaxError \<or> parse_chars s = Inl Unmodelled
   \<or> (\<exists>r. length r < length s \<and> parse_chars s = Inr ([], r))
   \<or> (\<exists>x r'. length r' < length s \<and> parse_chars s = cons_char x (parse_chars r'))"
proof (cases s)
  case Nil
  then show ?thesis by simp
next
  case (Cons c cs)
  show ?thesis
  proof (cases "c = CHR 0x22")
    case True
    with Cons show ?thesis by simp
  next
    case q: False
    show ?thesis
    proof (cases "c = CHR 0x5C")
      case b: True
      show ?thesis
      proof (cases cs)
        case Nil
        with Cons q b show ?thesis by simp
      next
        case c2: (Cons e r0)
        show ?thesis
        proof (cases "e = CHR ''u''")
          case u: True
          show ?thesis
          proof (cases "\<exists>h1 h2 h3 h4 r'. r0 = h1 # h2 # h3 # h4 # r'")
            case True
            then obtain h1 h2 h3 h4 r' where r0: "r0 = h1 # h2 # h3 # h4 # r'" by blast
            show ?thesis
            proof (cases "hex4 h1 h2 h3 h4")
              case None
              with Cons q b c2 u r0 show ?thesis by simp
            next
              case (Some n)
              show ?thesis
              proof (cases "n < 256")
                case True
                with Cons q b c2 u r0 Some
                have "parse_chars s = cons_char (char_of n) (parse_chars r')" by simp
                moreover have "length r' < length s" using Cons c2 r0 by simp
                ultimately show ?thesis by blast
              next
                case False
                with Cons q b c2 u r0 Some show ?thesis by simp
              qed
            qed
          next
            case False
            then have "parse_chars s = Inl SyntaxError"
              using Cons q b c2 u by (auto split: list.splits)
            then show ?thesis by simp
          qed
        next
          case nu: False
          show ?thesis
          proof (cases "unescape e")
            case None
            with Cons q b c2 nu show ?thesis by simp
          next
            case (Some x)
            with Cons q b c2 nu
            have "parse_chars s = cons_char x (parse_chars r0)" by simp
            moreover have "length r0 < length s" using Cons c2 by simp
            ultimately show ?thesis by blast
          qed
        qed
      qed
    next
      case nb: False
      show ?thesis
      proof (cases "(of_char c :: nat) < 32")
        case True
        with Cons q nb show ?thesis by simp
      next
        case False
        with Cons q nb have "parse_chars s = cons_char c (parse_chars cs)" by simp
        moreover have "length cs < length s" using Cons by simp
        ultimately show ?thesis by blast
      qed
    qed
  qed
qed

lemma parse_chars_length: "parse_chars s = Inr (k, r) \<Longrightarrow> length r < length s"
proof (induction "length s" arbitrary: s k rule: less_induct)
  case less
  from parse_chars_step [of s] less.prems
  consider (a) r0 where "length r0 < length s" "parse_chars s = Inr ([], r0)"
    | (b) x r' where "length r' < length s" "parse_chars s = cons_char x (parse_chars r')"
    by auto
  then show ?case
  proof cases
    case a
    with less.prems show ?thesis by simp
  next
    case b
    with less.prems have "cons_char x (parse_chars r') = Inr (k, r)" by simp
    from cons_char_Inr [OF this] obtain k' where "parse_chars r' = Inr (k', r)" by blast
    from less.hyps [OF b(1) this] b(1) show ?thesis by simp
  qed
qed

lemma parse_chars_fuel: "parse_chars s \<noteq> Inl OutOfFuel"
proof (induction "length s" arbitrary: s rule: less_induct)
  case less
  from parse_chars_step [of s]
  consider (e) "parse_chars s = Inl SyntaxError \<or> parse_chars s = Inl Unmodelled"
    | (a) r0 where "parse_chars s = Inr ([], r0)"
    | (b) x r' where "length r' < length s" "parse_chars s = cons_char x (parse_chars r')"
    by auto
  then show ?case
  proof cases
    case e
    then show ?thesis by auto
  next
    case a
    then show ?thesis by simp
  next
    case b
    from less.hyps [OF b(1)] show ?thesis
      unfolding b(2) by (rule cons_char_fuel)
  qed
qed

lemma parse_number_fuel: "parse_number s \<noteq> Inl OutOfFuel"
  by (simp add: parse_number_def Let_def split: list.splits)

lemma parse_number_length:
  assumes "parse_number s = Inr (v, r)"
  shows "length r < length s"
proof -
  define s1 where "s1 = (if (case s of [] \<Rightarrow> False | c # cs \<Rightarrow> c = CHR ''-'') then tl s else s)"
  have l: "length s1 \<le> length s" by (simp add: s1_def)
  from assms have t: "takeWhile is_digit s1 \<noteq> []" and r: "r = dropWhile is_digit s1"
    by (auto simp: parse_number_def Let_def s1_def split: list.splits if_splits)
  have "length (takeWhile is_digit s1) + length (dropWhile is_digit s1) = length s1"
    by (metis length_append takeWhile_dropWhile_id)
  with t r have "length r < length s1" by (cases "takeWhile is_digit s1") auto
  with l show ?thesis by simp
qed

lemma parse_value_Suc_length:
  assumes e: "\<And>s vs r. parse_elements n s = Inr (vs, r) \<Longrightarrow> length r < length s"
    and m: "\<And>s ms r. parse_members n s = Inr (ms, r) \<Longrightarrow> length r < length s"
    and p: "parse_value (Suc n) s = Inr (v, r)"
  shows "length r < length s"
proof (cases "skip_ws s")
  case Nil
  with p show ?thesis by simp
next
  case (Cons c cs)
  have l: "length (c # cs) \<le> length s"
    using length_skip_ws [of s] Cons by simp
  consider (arr) "c = CHR ''[''" | (obj) "c \<noteq> CHR ''[''" "c = CHR ''{''"
    | (str) "c \<noteq> CHR ''[''" "c \<noteq> CHR ''{''" "c = CHR 0x22"
    | (num) "c \<noteq> CHR ''[''" "c \<noteq> CHR ''{''" "c \<noteq> CHR 0x22" "c = CHR ''-'' \<or> is_digit c"
    | (lit) "c \<noteq> CHR ''[''" "c \<noteq> CHR ''{''" "c \<noteq> CHR 0x22" "\<not> (c = CHR ''-'' \<or> is_digit c)"
    by blast
  then have "length r < length (c # cs)"
  proof cases
    case arr
    show ?thesis
    proof (cases "skip_ws cs")
      case Nil
      with p Cons arr show ?thesis by simp
    next
      case c2: (Cons d ds)
      show ?thesis
      proof (cases "d = CHR '']''")
        case True
        with p Cons arr c2 have "r = ds" by simp
        with skip_ws_Cons_length [OF c2] show ?thesis by simp
      next
        case False
        with p Cons arr c2 obtain vs where "parse_elements n cs = Inr (vs, r)"
          by (auto split: sum.splits)
        from e [OF this] show ?thesis by simp
      qed
    qed
  next
    case obj
    show ?thesis
    proof (cases "skip_ws cs")
      case Nil
      with p Cons obj show ?thesis by simp
    next
      case c2: (Cons d ds)
      show ?thesis
      proof (cases "d = CHR ''}''")
        case True
        with p Cons obj c2 have "r = ds" by simp
        with skip_ws_Cons_length [OF c2] show ?thesis by simp
      next
        case False
        with p Cons obj c2 obtain ms where "parse_members n cs = Inr (ms, r)"
          by (auto split: sum.splits if_splits)
        from m [OF this] show ?thesis by simp
      qed
    qed
  next
    case str
    with p Cons obtain k where "parse_chars cs = Inr (k, r)"
      by (auto split: sum.splits)
    from parse_chars_length [OF this] show ?thesis by simp
  next
    case num
    with p Cons have "parse_number (c # cs) = Inr (v, r)" by simp
    from parse_number_length [OF this] show ?thesis .
  next
    case lit
    with p Cons have "r = drop 4 (c # cs) \<or> r = drop 5 (c # cs)"
      by (auto split: if_splits)
    then show ?thesis by auto
  qed
  with l show ?thesis by simp
qed

lemma parse_elements_Suc_length:
  assumes v: "\<And>s v r. parse_value n s = Inr (v, r) \<Longrightarrow> length r < length s"
    and e: "\<And>s vs r. parse_elements n s = Inr (vs, r) \<Longrightarrow> length r < length s"
    and p: "parse_elements (Suc n) s = Inr (vs, r)"
  shows "length r < length s"
proof -
  from p obtain v0 r0 where v0: "parse_value n s = Inr (v0, r0)"
    by (auto split: sum.splits)
  from v [OF v0] have l0: "length r0 < length s" .
  from p v0 obtain c cs where c: "skip_ws r0 = c # cs"
    by (cases "skip_ws r0") auto
  from skip_ws_Cons_length [OF c] have l1: "length cs < length r0" .
  show ?thesis
  proof (cases "c = CHR '',''")
    case True
    with p v0 c obtain vs' where "parse_elements n cs = Inr (vs', r)"
      by (auto split: sum.splits)
    from e [OF this] l0 l1 show ?thesis by simp
  next
    case False
    with p v0 c have "r = cs" by (auto split: if_splits)
    with l0 l1 show ?thesis by simp
  qed
qed

lemma parse_members_Suc:
  assumes p: "parse_members (Suc n) s = Inr (ms, r)"
  shows "\<exists>s1 k s2 s3 v r0 c cs.
           skip_ws s = CHR 0x22 # s1 \<and> parse_chars s1 = Inr (k, s2) \<and> skip_ws s2 = CHR '':'' # s3
           \<and> parse_value n s3 = Inr (v, r0) \<and> skip_ws r0 = c # cs
           \<and> ((c = CHR '','' \<and> (\<exists>ms'. parse_members n cs = Inr (ms', r)))
               \<or> (c \<noteq> CHR '','' \<and> r = cs))"
proof -
  from p obtain q s1 where q: "skip_ws s = q # s1" by (cases "skip_ws s") auto
  with p have q2: "q = CHR 0x22" by (auto split: if_splits)
  from p q q2 obtain k s2 where k: "parse_chars s1 = Inr (k, s2)"
    by (auto split: sum.splits)
  from p q q2 k obtain col s3 where col: "skip_ws s2 = col # s3"
    by (cases "skip_ws s2") auto
  with p q q2 k have col2: "col = CHR '':''" by (auto split: if_splits)
  from p q q2 k col col2 obtain v r0 where v: "parse_value n s3 = Inr (v, r0)"
    by (auto split: sum.splits)
  from p q q2 k col col2 v obtain c cs where c: "skip_ws r0 = c # cs"
    by (cases "skip_ws r0") auto
  have "(c = CHR '','' \<and> (\<exists>ms'. parse_members n cs = Inr (ms', r))) \<or> (c \<noteq> CHR '','' \<and> r = cs)"
    using p q q2 k col col2 v c by (auto split: sum.splits if_splits)
  with q q2 k col col2 v c show ?thesis by blast
qed

lemma parse_members_Suc_length:
  assumes v: "\<And>s v r. parse_value n s = Inr (v, r) \<Longrightarrow> length r < length s"
    and m: "\<And>s ms r. parse_members n s = Inr (ms, r) \<Longrightarrow> length r < length s"
    and p: "parse_members (Suc n) s = Inr (ms, r)"
  shows "length r < length s"
proof -
  from parse_members_Suc [OF p] obtain s1 k s2 s3 v0 r0 c cs where
    a: "skip_ws s = CHR 0x22 # s1" "parse_chars s1 = Inr (k, s2)" "skip_ws s2 = CHR '':'' # s3"
       "parse_value n s3 = Inr (v0, r0)" "skip_ws r0 = c # cs"
       "(c = CHR '','' \<and> (\<exists>ms'. parse_members n cs = Inr (ms', r))) \<or> (c \<noteq> CHR '','' \<and> r = cs)"
    by blast
  have l: "length s1 < length s" "length s2 < length s1" "length s3 < length s2"
          "length r0 < length s3" "length cs < length r0"
    using skip_ws_Cons_length [OF a(1)] parse_chars_length [OF a(2)] skip_ws_Cons_length [OF a(3)]
      v [OF a(4)] skip_ws_Cons_length [OF a(5)] by simp_all
  from a(6) show ?thesis
  proof
    assume "c = CHR '','' \<and> (\<exists>ms'. parse_members n cs = Inr (ms', r))"
    then obtain ms' where "parse_members n cs = Inr (ms', r)" by blast
    from m [OF this] l show ?thesis by simp
  next
    assume "c \<noteq> CHR '','' \<and> r = cs"
    with l show ?thesis by simp
  qed
qed

lemma parse_length:
  "(\<forall>s v r. parse_value n s = Inr (v, r) \<longrightarrow> length r < length s)
   \<and> (\<forall>s vs r. parse_elements n s = Inr (vs, r) \<longrightarrow> length r < length s)
   \<and> (\<forall>s ms r. parse_members n s = Inr (ms, r) \<longrightarrow> length r < length s)"
proof (induction n)
  case 0
  show ?case by simp
next
  case (Suc n)
  show ?case
  proof (intro conjI allI impI)
    fix s v r assume "parse_value (Suc n) s = Inr (v, r)"
    with Suc show "length r < length s"
      by (intro parse_value_Suc_length [of n s v r]) blast+
  next
    fix s vs r assume "parse_elements (Suc n) s = Inr (vs, r)"
    with Suc show "length r < length s"
      by (intro parse_elements_Suc_length [of n s vs r]) blast+
  next
    fix s ms r assume "parse_members (Suc n) s = Inr (ms, r)"
    with Suc show "length r < length s"
      by (intro parse_members_Suc_length [of n s ms r]) blast+
  qed
qed

lemmas parse_value_length = parse_length [THEN conjunct1, rule_format]

lemma parse_value_Suc_fuel:
  assumes e: "\<And>s. 2 * length s + 1 < n \<Longrightarrow> parse_elements n s \<noteq> Inl OutOfFuel"
    and m: "\<And>s. 2 * length s + 1 < n \<Longrightarrow> parse_members n s \<noteq> Inl OutOfFuel"
    and l: "2 * length s < Suc n"
  shows "parse_value (Suc n) s \<noteq> Inl OutOfFuel"
proof (cases "skip_ws s")
  case Nil
  then show ?thesis by simp
next
  case (Cons c cs)
  from skip_ws_Cons_length [OF Cons] l have lc: "2 * length cs + 1 < n" by simp
  consider (arr) "c = CHR ''[''" | (obj) "c \<noteq> CHR ''[''" "c = CHR ''{''"
    | (str) "c \<noteq> CHR ''[''" "c \<noteq> CHR ''{''" "c = CHR 0x22"
    | (num) "c \<noteq> CHR ''[''" "c \<noteq> CHR ''{''" "c \<noteq> CHR 0x22" "c = CHR ''-'' \<or> is_digit c"
    | (lit) "c \<noteq> CHR ''[''" "c \<noteq> CHR ''{''" "c \<noteq> CHR 0x22" "\<not> (c = CHR ''-'' \<or> is_digit c)"
    by blast
  then show ?thesis
  proof cases
    case arr
    with Cons e [OF lc] show ?thesis
      by (auto split: list.splits sum.splits)
  next
    case obj
    with Cons m [OF lc] show ?thesis
      by (auto split: list.splits sum.splits)
  next
    case str
    with Cons parse_chars_fuel [of cs] show ?thesis
      by (auto split: sum.splits)
  next
    case num
    with Cons parse_number_fuel [of "c # cs"] show ?thesis by simp
  next
    case lit
    with Cons show ?thesis by simp
  qed
qed

lemma parse_elements_Suc_fuel:
  assumes v: "\<And>s. 2 * length s < n \<Longrightarrow> parse_value n s \<noteq> Inl OutOfFuel"
    and e: "\<And>s. 2 * length s + 1 < n \<Longrightarrow> parse_elements n s \<noteq> Inl OutOfFuel"
    and l: "2 * length s + 1 < Suc n"
  shows "parse_elements (Suc n) s \<noteq> Inl OutOfFuel"
proof (cases "parse_value n s")
  case (Inl x)
  from l have "2 * length s < n" by simp
  from v [OF this] Inl show ?thesis by simp
next
  case (Inr vr)
  obtain v0 r0 where vr: "vr = (v0, r0)" by (cases vr)
  from parse_value_length [of n s v0 r0] Inr vr have l0: "length r0 < length s" by simp
  show ?thesis
  proof (cases "skip_ws r0")
    case Nil
    with Inr vr show ?thesis by simp
  next
    case (Cons c cs)
    from skip_ws_Cons_length [OF Cons] l0 l have "2 * length cs + 1 < n" by simp
    from e [OF this] Inr vr Cons show ?thesis
      by (auto split: sum.splits)
  qed
qed

lemma parse_members_Suc_fuel:
  assumes v: "\<And>s. 2 * length s < n \<Longrightarrow> parse_value n s \<noteq> Inl OutOfFuel"
    and m: "\<And>s. 2 * length s + 1 < n \<Longrightarrow> parse_members n s \<noteq> Inl OutOfFuel"
    and l: "2 * length s + 1 < Suc n"
  shows "parse_members (Suc n) s \<noteq> Inl OutOfFuel"
proof (cases "skip_ws s")
  case Nil
  then show ?thesis by simp
next
  case (Cons q s1)
  from skip_ws_Cons_length [OF Cons] have l1: "length s1 < length s" .
  show ?thesis
  proof (cases "parse_chars s1")
    case (Inl x)
    with Cons parse_chars_fuel [of s1] show ?thesis by simp
  next
    case (Inr ks)
    obtain k s2 where ks: "ks = (k, s2)" by (cases ks)
    from parse_chars_length [of s1 k s2] Inr ks have l2: "length s2 < length s1" by simp
    show ?thesis
    proof (cases "skip_ws s2")
      case Nil
      with Cons Inr ks show ?thesis by simp
    next
      case c3: (Cons col s3)
      from skip_ws_Cons_length [OF c3] have l3: "length s3 < length s2" .
      show ?thesis
      proof (cases "parse_value n s3")
        case pl: (Inl x)
        from l l1 l2 l3 have "2 * length s3 < n" by simp
        from v [OF this] pl Cons Inr ks c3 show ?thesis by simp
      next
        case pr: (Inr vr)
        obtain v0 r0 where vr: "vr = (v0, r0)" by (cases vr)
        from parse_value_length [of n s3 v0 r0] pr vr have l4: "length r0 < length s3" by simp
        show ?thesis
        proof (cases "skip_ws r0")
          case Nil
          with Cons Inr ks c3 pr vr show ?thesis by simp
        next
          case c5: (Cons c cs)
          from skip_ws_Cons_length [OF c5] l l1 l2 l3 l4 have "2 * length cs + 1 < n" by simp
          from m [OF this] Cons Inr ks c3 pr vr c5 show ?thesis
            by (auto split: sum.splits)
        qed
      qed
    qed
  qed
qed

lemma parse_fuel:
  "(\<forall>s. 2 * length s < n \<longrightarrow> parse_value n s \<noteq> Inl OutOfFuel)
   \<and> (\<forall>s. 2 * length s + 1 < n \<longrightarrow> parse_elements n s \<noteq> Inl OutOfFuel)
   \<and> (\<forall>s. 2 * length s + 1 < n \<longrightarrow> parse_members n s \<noteq> Inl OutOfFuel)"
proof (induction n)
  case 0
  show ?case by simp
next
  case (Suc n)
  show ?case
  proof (intro conjI allI impI)
    fix s :: string assume "2 * length s < Suc n"
    with Suc show "parse_value (Suc n) s \<noteq> Inl OutOfFuel"
      by (intro parse_value_Suc_fuel) blast+
  next
    fix s :: string assume "2 * length s + 1 < Suc n"
    with Suc show "parse_elements (Suc n) s \<noteq> Inl OutOfFuel"
      by (intro parse_elements_Suc_fuel) blast+
  next
    fix s :: string assume "2 * length s + 1 < Suc n"
    with Suc show "parse_members (Suc n) s \<noteq> Inl OutOfFuel"
      by (intro parse_members_Suc_fuel) blast+
  qed
qed

lemma JSON_parse_fuel: "JSON_parse s \<noteq> Inl OutOfFuel"
proof -
  have "parse_value (Suc (2 * length s)) s \<noteq> Inl OutOfFuel"
    using parse_fuel [of "Suc (2 * length s)"] by simp
  then show ?thesis
    by (auto simp: JSON_parse_def simp del: parse_value.simps split: sum.splits)
qed

section \<open>JSON.parse reads what JSON.stringify wrote\<close>

lemma hex_val_hex_char: "d < 16 \<Longrightarrow> hex_val (hex_char d) = Some d"
  by (auto simp: hex_val_def hex_char_def Let_def)

lemma hex_val_zero: "hex_val (CHR ''0'') = Some 0"
  by (simp add: hex_val_def)

lemma hex4_escape:
  assumes "(of_char c :: nat) < 32"
  shows "hex4 (CHR ''0'') (CHR ''0'') (hex_char (of_char c div 16)) (hex_char (of_char c mod 16))
           = Some (of_char c)"
proof -
  have "(of_char c :: nat) div 16 < 16" using assms by simp
  moreover have "(of_char c :: nat) mod 16 < 16" by simp
  ultimately show ?thesis
    by (simp add: hex4_def hex_val_zero hex_val_hex_char)
qed

lemma parse_chars_escape:
  "parse_chars (escape_char c @ t) = cons_char c (parse_chars t)"
proof -
  consider (q) "c = CHR 0x22" | (b) "c = CHR 0x5C" | (bs) "c = CHR 0x08" | (f) "c = CHR 0x0C"
    | (n) "c = CHR 0x0A" | (r) "c = CHR 0x0D" | (t) "c = CHR 0x09"
    | (u) "c \<noteq> CHR 0x22" "c \<noteq> CHR 0x5C" "c \<noteq> CHR 0x08" "c \<noteq> CHR 0x0C" "c \<noteq> CHR 0x0A"
          "c \<noteq> CHR 0x0D" "c \<noteq> CHR 0x09" "(of_char c :: nat) < 32"
    | (l) "c \<noteq> CHR 0x22" "c \<noteq> CHR 0x5C" "\<not> (of_char c :: nat) < 32"
    by (cases "(of_char c :: nat) < 32") auto
  then show ?thesis
  proof cases
    case u
    then show ?thesis
      by (simp add: escape_char_def hex4_escape)
  next
    case l
    then have "c \<noteq> CHR 0x08" "c \<noteq> CHR 0x0C" "c \<noteq> CHR 0x0A" "c \<noteq> CHR 0x0D" "c \<noteq> CHR 0x09"
      by auto
    with l show ?thesis
      by (simp add: escape_char_def)
  qed (simp_all add: escape_char_def unescape_def)
qed

lemma parse_chars_quote:
  "parse_chars (concat (map escape_char s) @ CHR 0x22 # rest) = Inr (s, rest)"
  by (induction s) (simp_all add: parse_chars_escape cons_char_def)

lemma is_digit_digit_char: "d < 10 \<Longrightarrow> is_digit (digit_char d)"
  by (simp add: is_digit_def digit_char_def)

lemma digit_char_val:
  assumes "d < 10"
  shows "(of_char (digit_char d) :: int) - 48 = int d"
proof -
  have "(of_char (char_of (48 + d)) :: int) = int (of_char (char_of (48 + d)))"
    by (simp only: of_nat_of_char)
  also have "\<dots> = int (48 + d)" using assms by simp
  finally show ?thesis by (simp add: digit_char_def)
qed

lemma show_nat_digits: "c \<in> set (show_nat n) \<Longrightarrow> is_digit c"
proof (induction n arbitrary: c rule: show_nat.induct)
  case (1 n)
  show ?case
  proof (cases "n < 10")
    case True
    with "1.prems" show ?thesis
      by (simp add: show_nat.simps [of n] is_digit_digit_char)
  next
    case False
    with "1.prems" have "c \<in> set (show_nat (n div 10)) \<or> c = digit_char (n mod 10)"
      by (auto simp: show_nat.simps [of n])
    then show ?thesis
      using "1.IH" [OF False] by (auto simp: is_digit_digit_char)
  qed
qed

lemma of_char_digit_char: "d < 10 \<Longrightarrow> (of_char (digit_char d) :: nat) = 48 + d"
  by (simp add: digit_char_def)

lemma digit_char_zero: "digit_char 0 = CHR ''0''"
proof -
  have "char_of (of_char (CHR ''0'') :: nat) = CHR ''0''" by (rule char_of_char)
  then show ?thesis by (simp add: digit_char_def)
qed

lemma digit_char_pos: "0 < d \<Longrightarrow> d < 10 \<Longrightarrow> digit_char d \<noteq> CHR ''0''"
proof
  assume "0 < d" "d < 10" "digit_char d = CHR ''0''"
  then have "(of_char (digit_char d) :: nat) = of_char (CHR ''0'')" by simp
  with \<open>d < 10\<close> \<open>0 < d\<close> show False by (simp add: of_char_digit_char)
qed

lemma show_nat_not_Nil: "show_nat n \<noteq> []"
  by (simp add: show_nat.simps [of n])

lemma digits_value_snoc: "digits_value (ds @ [c]) = 10 * digits_value ds + (of_char c - 48)"
  by (simp add: digits_value_def)

lemma digits_value_show_nat: "digits_value (show_nat n) = int n"
proof (induction n rule: show_nat.induct)
  case (1 n)
  show ?case
  proof (cases "n < 10")
    case True
    then show ?thesis
      by (simp add: show_nat.simps [of n] digits_value_def digit_char_val)
  next
    case False
    then show ?thesis
      using "1.IH" [OF False]
      by (simp add: show_nat.simps [of n] digits_value_snoc digit_char_val zdiv_int zmod_int)
  qed
qed

lemma show_nat_hd: "0 < n \<Longrightarrow> hd (show_nat n) \<noteq> CHR ''0''"
proof (induction n rule: show_nat.induct)
  case (1 n)
  show ?case
  proof (cases "n < 10")
    case True
    with "1.prems" show ?thesis
      by (simp add: show_nat.simps [of n] digit_char_pos)
  next
    case False
    then have "0 < n div 10" by simp
    from "1.IH" [OF False this] show ?thesis
      using False by (simp add: show_nat.simps [of n] show_nat_not_Nil)
  qed
qed

lemma show_nat_zero: "show_nat 0 = ''0''"
  by (simp add: show_nat.simps [of 0] digit_char_zero)

lemma takeWhile_digits:
  assumes "ends_number rest"
  shows "takeWhile is_digit (show_nat n @ rest) = show_nat n"
    and "dropWhile is_digit (show_nat n @ rest) = rest"
proof -
  have r: "takeWhile is_digit rest = []" "dropWhile is_digit rest = rest"
    using assms by (cases rest; simp add: ends_number_def)+
  show "takeWhile is_digit (show_nat n @ rest) = show_nat n"
    using r by (simp add: takeWhile_append2 show_nat_digits)
  show "dropWhile is_digit (show_nat n @ rest) = rest"
    using r by (simp add: dropWhile_append2 show_nat_digits)
qed

lemma show_nat_shape:
  "\<exists>d ds. show_nat n = d # ds \<and> is_digit d \<and> \<not> (d = CHR ''0'' \<and> ds \<noteq> [])"
proof (cases "show_nat n")
  case Nil
  then show ?thesis by (simp add: show_nat_not_Nil)
next
  case (Cons d ds)
  have d: "is_digit d" using show_nat_digits [of d n] Cons by simp
  have "\<not> (d = CHR ''0'' \<and> ds \<noteq> [])"
  proof (cases "n = 0")
    case True
    with Cons show ?thesis by (simp add: show_nat_zero)
  next
    case False
    then have "hd (show_nat n) \<noteq> CHR ''0''" by (simp add: show_nat_hd)
    with Cons show ?thesis by simp
  qed
  with Cons d show ?thesis by blast
qed

lemma parse_number_nat:
  assumes "ends_number rest" and "int n \<le> MAX_SAFE_INTEGER"
  shows "parse_number (show_nat n @ rest) = Inr (JNum (int n), rest)"
proof -
  from show_nat_shape [of n] obtain d ds where
    s: "show_nat n = d # ds" "is_digit d" "\<not> (d = CHR ''0'' \<and> ds \<noteq> [])"
    by blast
  have nm: "d \<noteq> CHR ''-''" using s(2) by (auto simp: is_digit_def)
  have t: "takeWhile is_digit (d # ds @ rest) = d # ds" "dropWhile is_digit (d # ds @ rest) = rest"
    using takeWhile_digits [OF assms(1), of n] s(1) by simp_all
  have v: "digits_value (d # ds) = int n"
    using digits_value_show_nat [of n] s(1) by simp
  show ?thesis
  proof (cases rest)
    case Nil
    from t have t': "takeWhile is_digit (d # ds) = d # ds" "dropWhile is_digit (d # ds) = []"
      unfolding Nil by simp_all
    show ?thesis
      unfolding Nil s(1) using s(2,3) nm assms(2)
      by (simp add: parse_number_def Let_def t' v del: takeWhile.simps dropWhile.simps)
  next
    case (Cons x xs)
    from assms(1) have x: "\<not> is_digit x" "x \<noteq> CHR ''.''" "x \<noteq> CHR ''e''" "x \<noteq> CHR ''E''"
      by (simp_all add: ends_number_def Cons)
    show ?thesis
      unfolding Cons s(1) using s(2,3) nm x assms(2)
      by (simp add: parse_number_def Let_def t [unfolded Cons] v
            del: takeWhile.simps dropWhile.simps)
  qed
qed

lemma parse_number_neg:
  assumes "ends_number rest" and "int n \<le> MAX_SAFE_INTEGER"
  shows "parse_number (CHR ''-'' # show_nat n @ rest) = Inr (JNum (- int n), rest)"
proof -
  from show_nat_shape [of n] obtain d ds where
    s: "show_nat n = d # ds" "is_digit d" "\<not> (d = CHR ''0'' \<and> ds \<noteq> [])"
    by blast
  have t: "takeWhile is_digit (d # ds @ rest) = d # ds" "dropWhile is_digit (d # ds @ rest) = rest"
    using takeWhile_digits [OF assms(1), of n] s(1) by simp_all
  have v: "digits_value (d # ds) = int n"
    using digits_value_show_nat [of n] s(1) by simp
  show ?thesis
  proof (cases rest)
    case Nil
    from t have t': "takeWhile is_digit (d # ds) = d # ds" "dropWhile is_digit (d # ds) = []"
      unfolding Nil by simp_all
    show ?thesis
      unfolding Nil s(1) using s(2,3) assms(2)
      by (simp add: parse_number_def Let_def t' v del: takeWhile.simps dropWhile.simps)
  next
    case (Cons x xs)
    from assms(1) have x: "\<not> is_digit x" "x \<noteq> CHR ''.''" "x \<noteq> CHR ''e''" "x \<noteq> CHR ''E''"
      by (simp_all add: ends_number_def Cons)
    show ?thesis
      unfolding Cons s(1) using s(2,3) x assms(2)
      by (simp add: parse_number_def Let_def t [unfolded Cons] v
            del: takeWhile.simps dropWhile.simps)
  qed
qed

lemma parse_number_show_int:
  assumes "ends_number rest" and "\<bar>i\<bar> \<le> MAX_SAFE_INTEGER"
  shows "parse_number (show_int i @ rest) = Inr (JNum i, rest)"
proof (cases "i < 0")
  case True
  then have "int (nat (- i)) \<le> MAX_SAFE_INTEGER" using assms(2) by simp
  from parse_number_neg [OF assms(1) this] True show ?thesis
    by (simp add: show_int_def)
next
  case False
  then have "int (nat i) \<le> MAX_SAFE_INTEGER" using assms(2) by simp
  from parse_number_nat [OF assms(1) this] False show ?thesis
    by (simp add: show_int_def)
qed

lemma skip_ws_Cons: "\<not> is_ws c \<Longrightarrow> skip_ws (c # s) = c # s"
  by (simp add: skip_ws_def)

lemma opens_value_not:
  assumes "opens_value c"
  shows "\<not> is_ws c" and "c \<noteq> CHR '']''" and "c \<noteq> CHR ''}''"
  using assms by (auto simp: opens_value_def is_ws_def is_digit_def)

lemma show_int_Cons: "\<exists>c cs. show_int i = c # cs \<and> (c = CHR ''-'' \<or> is_digit c)"
proof (cases "i < 0")
  case True
  then show ?thesis by (simp add: show_int_def)
next
  case False
  from show_nat_shape [of "nat i"] obtain d ds where "show_nat (nat i) = d # ds" "is_digit d"
    by blast
  with False show ?thesis by (simp add: show_int_def)
qed

lemma stringify_Cons: "\<exists>c s. JSON_stringify v = c # s \<and> opens_value c"
proof (cases v)
  case (JNum i)
  from show_int_Cons [of i] obtain c cs where "show_int i = c # cs" "c = CHR ''-'' \<or> is_digit c"
    by blast
  with JNum show ?thesis by (auto simp: opens_value_def)
qed (auto simp: opens_value_def quote_def)

lemma stringify_elements_Cons:
  "vs \<noteq> [] \<Longrightarrow> \<exists>c s. stringify_elements vs = c # s \<and> opens_value c"
proof (cases vs)
  case Nil
  assume "vs \<noteq> []"
  with Nil show ?thesis by simp
next
  case (Cons v vs')
  from stringify_Cons [of v] obtain c s where "JSON_stringify v = c # s" "opens_value c"
    by blast
  with Cons show ?thesis by simp
qed

lemma parse_value_null:
  "parse_value (Suc m) (''null'' @ rest) = Inr (JNull, rest)"
  by (simp add: skip_ws_def is_ws_def is_digit_def)

lemma parse_value_true:
  "parse_value (Suc m) (''true'' @ rest) = Inr (JBool True, rest)"
  by (simp add: skip_ws_def is_ws_def is_digit_def)

lemma parse_value_false:
  "parse_value (Suc m) (''false'' @ rest) = Inr (JBool False, rest)"
  by (simp add: skip_ws_def is_ws_def is_digit_def)

lemma parse_value_str:
  "parse_value (Suc m) (quote s @ rest) = Inr (JStr s, rest)"
  by (simp add: quote_def skip_ws_def is_ws_def parse_chars_quote)

lemma parse_value_num:
  assumes "ends_number rest" and "\<bar>i\<bar> \<le> MAX_SAFE_INTEGER"
  shows "parse_value (Suc m) (show_int i @ rest) = Inr (JNum i, rest)"
proof -
  from show_int_Cons [of i] obtain c cs where
    c: "show_int i = c # cs" "c = CHR ''-'' \<or> is_digit c"
    by blast
  then have n: "\<not> is_ws c" "c \<noteq> CHR ''[''" "c \<noteq> CHR ''{''" "c \<noteq> CHR 0x22"
    by (auto simp: is_ws_def is_digit_def)
  have "parse_value (Suc m) (c # cs @ rest) = parse_number (c # cs @ rest)"
    using n c(2) by (simp add: skip_ws_Cons)
  then show ?thesis
    using parse_number_show_int [OF assms] c(1) by simp
qed

lemma obj_set_fresh: "k \<notin> fst ` set kvs \<Longrightarrow> obj_set kvs k v = kvs @ [(k, v)]"
  by (induction kvs) auto

lemma foldl_obj_set_distinct:
  "distinct (map fst (acc @ ms)) \<Longrightarrow>
     foldl (\<lambda>acc (k, v). obj_set acc k v) acc ms = acc @ ms"
proof (induction ms arbitrary: acc)
  case Nil
  then show ?case by simp
next
  case (Cons kv ms)
  obtain k v where kv: "kv = (k, v)" by (cases kv)
  from Cons.prems kv have f: "k \<notin> fst ` set acc" by auto
  from Cons.prems kv have "distinct (map fst ((acc @ [(k, v)]) @ ms))" by simp
  from Cons.IH [OF this] show ?case
    using kv f by (simp add: obj_set_fresh)
qed

lemma obj_of_members_distinct: "distinct (map fst ms) \<Longrightarrow> obj_of_members ms = ms"
  using foldl_obj_set_distinct [of "[]" ms] by (simp add: obj_of_members_def)

lemma ends_number_simps [simp]:
  "ends_number []" "ends_number (CHR '','' # s)" "ends_number (CHR '']'' # s)"
  "ends_number (CHR ''}'' # s)"
  by (simp_all add: ends_number_def is_digit_def)

lemma parse_value_arr:
  assumes "vs = [] \<or> parse_elements m (stringify_elements vs @ CHR '']'' # rest) = Inr (vs, rest)"
  shows "parse_value (Suc m) (JSON_stringify (JArr vs) @ rest) = Inr (JArr vs, rest)"
proof (cases "vs = []")
  case True
  then show ?thesis
    by (simp add: skip_ws_def is_ws_def)
next
  case False
  from stringify_elements_Cons [OF False] obtain c s where
    c: "stringify_elements vs = c # s" "opens_value c"
    by blast
  from assms False have p: "parse_elements m (c # s @ CHR '']'' # rest) = Inr (vs, rest)"
    using c(1) by simp
  show ?thesis
    using opens_value_not [OF c(2)] p
    by (simp add: c(1) skip_ws_Cons is_ws_def)
qed

lemma stringify_members_Cons:
  "kvs \<noteq> [] \<Longrightarrow> \<exists>s. stringify_members kvs = CHR 0x22 # s"
  by (cases kvs) (auto simp: quote_def)

lemma parse_value_obj:
  assumes "kvs = [] \<or> parse_members m (stringify_members kvs @ CHR ''}'' # rest) = Inr (kvs, rest)"
    and "distinct (map fst kvs)" and "\<not> list_ex is_index (map fst kvs)"
  shows "parse_value (Suc m) (JSON_stringify (JObj kvs) @ rest) = Inr (JObj kvs, rest)"
proof (cases "kvs = []")
  case True
  then show ?thesis
    by (simp add: skip_ws_def is_ws_def)
next
  case False
  from stringify_members_Cons [OF False] obtain s where
    c: "stringify_members kvs = CHR 0x22 # s"
    by blast
  from assms False have p: "parse_members m (CHR 0x22 # s @ CHR ''}'' # rest) = Inr (kvs, rest)"
    using c by simp
  show ?thesis
    using p assms(3)
    by (simp add: c skip_ws_Cons is_ws_def obj_of_members_distinct [OF assms(2)])
qed

lemma parse_elements_step:
  assumes "parse_value m (JSON_stringify v @ (if vs = [] then [] else CHR '','' # stringify_elements vs)
                            @ CHR '']'' # rest)
           = Inr (v, (if vs = [] then [] else CHR '','' # stringify_elements vs) @ CHR '']'' # rest)"
    and "vs = [] \<or> parse_elements m (stringify_elements vs @ CHR '']'' # rest) = Inr (vs, rest)"
  shows "parse_elements (Suc m) (stringify_elements (v # vs) @ CHR '']'' # rest) = Inr (v # vs, rest)"
  using assms by (cases "vs = []") (simp_all add: skip_ws_Cons is_ws_def)

lemma parse_members_step:
  assumes "parse_value m (JSON_stringify v @ (if kvs = [] then [] else CHR '','' # stringify_members kvs)
                            @ CHR ''}'' # rest)
           = Inr (v, (if kvs = [] then [] else CHR '','' # stringify_members kvs) @ CHR ''}'' # rest)"
    and "kvs = [] \<or> parse_members m (stringify_members kvs @ CHR ''}'' # rest) = Inr (kvs, rest)"
  shows "parse_members (Suc m) (stringify_members ((k, v) # kvs) @ CHR ''}'' # rest)
           = Inr ((k, v) # kvs, rest)"
  using assms
  by (cases "kvs = []") (simp_all add: quote_def parse_chars_quote skip_ws_Cons is_ws_def)

lemma parse_stringify:
  "\<forall>n rest. fuel v \<le> n \<longrightarrow> wf_json v \<longrightarrow> ends_number rest \<longrightarrow>
      parse_value n (JSON_stringify v @ rest) = Inr (v, rest)"
  "\<forall>n rest. vs \<noteq> [] \<longrightarrow> fuel_elements vs \<le> n \<longrightarrow> wf_elements vs \<longrightarrow>
      parse_elements n (stringify_elements vs @ CHR '']'' # rest) = Inr (vs, rest)"
  "\<forall>n rest. kvs \<noteq> [] \<longrightarrow> fuel_members kvs \<le> n \<longrightarrow> wf_members kvs \<longrightarrow>
      parse_members n (stringify_members kvs @ CHR ''}'' # rest) = Inr (kvs, rest)"
proof (induction v and vs and kvs rule: JSON_stringify_stringify_elements_stringify_members.induct)
  case 1
  show ?case
  proof (intro allI impI)
    fix n rest assume "fuel JNull \<le> n"
    then obtain m where "n = Suc m" by (cases n) auto
    then show "parse_value n (JSON_stringify JNull @ rest) = Inr (JNull, rest)"
      using parse_value_null [of m rest] by simp
  qed
next
  case (2 b)
  show ?case
  proof (intro allI impI)
    fix n rest assume "fuel (JBool b) \<le> n"
    then obtain m where "n = Suc m" by (cases n) auto
    then show "parse_value n (JSON_stringify (JBool b) @ rest) = Inr (JBool b, rest)"
      using parse_value_true [of m rest] parse_value_false [of m rest] by (cases b) simp_all
  qed
next
  case (3 i)
  show ?case
  proof (intro allI impI)
    fix n rest assume "fuel (JNum i) \<le> n" and w: "wf_json (JNum i)" and e: "ends_number rest"
    then obtain m where "n = Suc m" by (cases n) auto
    moreover have "\<bar>i\<bar> \<le> MAX_SAFE_INTEGER" using w by simp
    ultimately show "parse_value n (JSON_stringify (JNum i) @ rest) = Inr (JNum i, rest)"
      using parse_value_num [OF e, of i m] by simp
  qed
next
  case (4 s)
  show ?case
  proof (intro allI impI)
    fix n rest assume "fuel (JStr s) \<le> n"
    then obtain m where "n = Suc m" by (cases n) auto
    then show "parse_value n (JSON_stringify (JStr s) @ rest) = Inr (JStr s, rest)"
      using parse_value_str [of m s rest] by simp
  qed
next
  case (5 vs)
  show ?case
  proof (intro allI impI)
    fix n rest assume f: "fuel (JArr vs) \<le> n" and w: "wf_json (JArr vs)"
    then obtain m where m: "n = Suc m" by (cases n) auto
    have "vs = [] \<or> parse_elements m (stringify_elements vs @ CHR '']'' # rest) = Inr (vs, rest)"
      using 5 f w m by auto
    then show "parse_value n (JSON_stringify (JArr vs) @ rest) = Inr (JArr vs, rest)"
      unfolding m by (rule parse_value_arr)
  qed
next
  case (6 kvs)
  show ?case
  proof (intro allI impI)
    fix n rest assume f: "fuel (JObj kvs) \<le> n" and w: "wf_json (JObj kvs)"
    then obtain m where m: "n = Suc m" by (cases n) auto
    have "kvs = [] \<or> parse_members m (stringify_members kvs @ CHR ''}'' # rest) = Inr (kvs, rest)"
      using 6 f w m by auto
    moreover have "distinct (map fst kvs)" "\<not> list_ex is_index (map fst kvs)"
      using w by simp_all
    ultimately show "parse_value n (JSON_stringify (JObj kvs) @ rest) = Inr (JObj kvs, rest)"
      unfolding m by (rule parse_value_obj)
  qed
next
  case 7
  show ?case by simp
next
  case (8 v vs)
  show ?case
  proof (intro allI impI)
    fix n rest
    assume f: "fuel_elements (v # vs) \<le> n" and w: "wf_elements (v # vs)"
    then obtain m where m: "n = Suc m" by (cases n) auto
    let ?t = "(if vs = [] then [] else CHR '','' # stringify_elements vs) @ CHR '']'' # rest"
    have e: "ends_number ?t" by simp
    have "fuel v \<le> m" "wf_json v" using f w m by simp_all
    with "8.IH"(1) e have 1: "parse_value m (JSON_stringify v @ ?t) = Inr (v, ?t)"
      by blast
    have 2: "vs = [] \<or> parse_elements m (stringify_elements vs @ CHR '']'' # rest) = Inr (vs, rest)"
    proof (cases "vs = []")
      case False
      have "fuel_elements vs \<le> m" "wf_elements vs" using f w m by simp_all
      with "8.IH"(2) [OF False] False show ?thesis by blast
    qed simp
    show "parse_elements n (stringify_elements (v # vs) @ CHR '']'' # rest) = Inr (v # vs, rest)"
      unfolding m using 1 2 by (rule parse_elements_step)
  qed
next
  case 9
  show ?case by simp
next
  case (10 k v kvs)
  show ?case
  proof (intro allI impI)
    fix n rest
    assume f: "fuel_members ((k, v) # kvs) \<le> n" and w: "wf_members ((k, v) # kvs)"
    then obtain m where m: "n = Suc m" by (cases n) auto
    let ?t = "(if kvs = [] then [] else CHR '','' # stringify_members kvs) @ CHR ''}'' # rest"
    have e: "ends_number ?t" by simp
    have "fuel v \<le> m" "wf_json v" using f w m by simp_all
    with "10.IH"(1) e have 1: "parse_value m (JSON_stringify v @ ?t) = Inr (v, ?t)"
      by blast
    have 2: "kvs = [] \<or> parse_members m (stringify_members kvs @ CHR ''}'' # rest) = Inr (kvs, rest)"
    proof (cases "kvs = []")
      case False
      have "fuel_members kvs \<le> m" "wf_members kvs" using f w m by simp_all
      with "10.IH"(2) [OF False] False show ?thesis by blast
    qed simp
    show "parse_members n (stringify_members ((k, v) # kvs) @ CHR ''}'' # rest)
            = Inr ((k, v) # kvs, rest)"
      unfolding m using 1 2 by (rule parse_members_step)
  qed
qed

lemma fuel_le_length:
  "fuel v \<le> length (JSON_stringify v)"
  "fuel_elements vs \<le> Suc (length (stringify_elements vs))"
  "fuel_members kvs \<le> Suc (length (stringify_members kvs))"
proof (induction v and vs and kvs rule: JSON_stringify_stringify_elements_stringify_members.induct)
  case (3 i)
  from show_int_Cons [of i] show ?case by auto
next
  case (4 s)
  show ?case by (simp add: quote_def)
qed (auto simp: quote_def split: if_splits)

lemma JSON_parse_stringify:
  assumes "wf_json v"
  shows "JSON_parse (JSON_stringify v) = Inr v"
proof -
  have "fuel v \<le> Suc (2 * length (JSON_stringify v))"
    using fuel_le_length(1) [of v] by simp
  with parse_stringify(1) [of v, rule_format, of "Suc (2 * length (JSON_stringify v))" "[]"] assms
  have "parse_value (Suc (2 * length (JSON_stringify v))) (JSON_stringify v @ []) = Inr (v, [])"
    by (simp del: parse_value.simps)
  then show ?thesis
    by (simp add: JSON_parse_def skip_ws_def del: parse_value.simps)
qed

lemma saved_cache: "cache (saveTokenToCache tok w) = Some (JSON_stringify tok)"
  by (simp add: saveTokenToCache_def)

lemma stringify_not_Nil: "JSON_stringify v \<noteq> []"
  using stringify_Cons [of v] by auto

text \<open>
  C9, as stated: every token record that contains an \<open>access_token\<close> is loaded again as
  it was saved. A record whose \<open>access_token\<close> is the empty string contains the field, and
  once saved it is not loaded: \<open>getTokenFromCache\<close> tests the field for truth and returns
  \<open>undefined\<close>.
\<close>

theorem empty_access_token_is_not_loaded:
  "get_prop (Json empty_token) ''access_token'' = Inr (Json (JStr []))
   \<and> getTokenFromCache (env0 (response0 200 ''OK'') []) config0
         (saveTokenToCache empty_token (world0 None))
       = (Inr Undefined, saveTokenToCache empty_token (world0 None))"
  by code_simp

text \<open>
  C9, amended: a token record whose \<open>access_token\<close> is truthy (a string that is not
  empty), saved with \<open>saveTokenToCache\<close> and loaded at once with \<open>getTokenFromCache\<close>, is
  returned as it was saved; its \<open>access_token\<close>, \<open>token_type\<close>, \<open>expires_in\<close> and
  \<open>refresh_token\<close> are those of the saved record.
\<close>

theorem save_then_load_returns_record:
  assumes "wf_json tok"
    and "get_prop (Json tok) ''access_token'' = Inr c" and "truthy c"
  shows "\<exists>loaded. getTokenFromCache env config (saveTokenToCache tok w)
                    = (Inr (Json loaded), saveTokenToCache tok w)
           \<and> loaded = tok
           \<and> get_prop (Json loaded) ''access_token'' = get_prop (Json tok) ''access_token''
           \<and> get_prop (Json loaded) ''token_type'' = get_prop (Json tok) ''token_type''
           \<and> get_prop (Json loaded) ''expires_in'' = get_prop (Json tok) ''expires_in''
           \<and> get_prop (Json loaded) ''refresh_token'' = get_prop (Json tok) ''refresh_token''"
proof -
  have "getTokenFromCache env config (saveTokenToCache tok w)
          = (Inr (Json tok), saveTokenToCache tok w)"
    using saved_cache stringify_not_Nil JSON_parse_stringify [OF assms(1)] assms(2,3)
    by (rule getTokenFromCache_cached)
  then show ?thesis by simp
qed

theorem save_then_load_returns_record_witness:
  "wf_json (JObj [(''access_token'', JStr ''e30.eyJleHAiOjEwMDB9.c2ln''), (''token_type'', JStr ''Bearer''),
                  (''expires_in'', JNum 1199), (''refresh_token'', JStr ''r2'')])
   \<and> truthy (Json (JStr ''e30.eyJleHAiOjEwMDB9.c2ln''))
   \<and> getTokenFromCache (env0 (response0 200 ''OK'') []) config0
        (saveTokenToCache
           (JObj [(''access_token'', JStr ''e30.eyJleHAiOjEwMDB9.c2ln''), (''token_type'', JStr ''Bearer''),
                  (''expires_in'', JNum 1199), (''refresh_token'', JStr ''r2'')])
           (world0 None))
      = (Inr (Json (JObj [(''access_token'', JStr ''e30.eyJleHAiOjEwMDB9.c2ln''),
                          (''token_type'', JStr ''Bearer''),
                          (''expires_in'', JNum 1199), (''refresh_token'', JStr ''r2'')])),
         saveTokenToCache
           (JObj [(''access_token'', JStr ''e30.eyJleHAiOjEwMDB9.c2ln''), (''token_type'', JStr ''Bearer''),
                  (''expires_in'', JNum 1199), (''refresh_token'', JStr ''r2'')])
           (world0 None))"
proof -
  let ?t = "JObj [(''access_token'', JStr ''e30.eyJleHAiOjEwMDB9.c2ln''), (''token_type'', JStr ''Bearer''),
                  (''expires_in'', JNum 1199), (''refresh_token'', JStr ''r2'')]"
  have w: "wf_json ?t" by code_simp
  have g: "get_prop (Json ?t) ''access_token'' = Inr (Json (JStr ''e30.eyJleHAiOjEwMDB9.c2ln''))"
    by simp
  have t: "truthy (Json (JStr ''e30.eyJleHAiOjEwMDB9.c2ln''))" by simp
  from save_then_load_returns_record [OF w g t, of "env0 (response0 200 ''OK'') []" config0 "world0 None"]
  show ?thesis using w t by auto
qed

section \<open>The PKCE challenge\<close>

lemma url_safe_b64url_char: "url_safe (b64url_char i)"
  by (auto simp: url_safe_def b64url_char_def is_alnum_def Let_def)

lemma url_safe_not_pad: "url_safe c \<Longrightarrow> c \<noteq> CHR ''=''"
  by (auto simp: url_safe_def is_alnum_def Let_def)

lemma base64url_url_safe: "c \<in> set (base64url bs) \<Longrightarrow> url_safe c"
  by (induction bs rule: base64url.induct) (auto simp: Let_def url_safe_b64url_char)

lemma base64url_no_padding: "CHR ''='' \<notin> set (base64url bs)"
  using base64url_url_safe url_safe_not_pad by blast

lemma length_base64url: "length (base64url bs) = (4 * length bs + 2) div 3"
  by (induction bs rule: base64url.induct) (simp_all add: Let_def)

lemma length_sha_round: "length (sha_round s kw) = length s"
  by (simp add: sha_round_def Let_def split: list.splits)

lemma length_foldl_sha_round: "length (foldl sha_round s kws) = length s"
  by (induction kws arbitrary: s) (simp_all add: length_sha_round)

lemma length_compress: "length (compress hs block) = length hs"
  by (simp add: compress_def length_foldl_sha_round)

lemma length_foldl_compress: "length (foldl compress hs bs) = length hs"
  by (induction bs arbitrary: hs) (simp_all add: length_compress)

lemma length_concat_be32: "length (concat (map be32 ws)) = 4 * length ws"
  by (induction ws) (simp_all add: be32_def)

lemma length_sha256: "length (sha256 m) = 32"
  by (simp add: sha256_def Let_def length_concat_be32 length_foldl_compress H256_def)

lemma b64url_char_not_pad: "b64url_char i \<noteq> CHR ''=''"
  using url_safe_b64url_char [of i] url_safe_not_pad by blast

lemma base64url_unpadded:
  "filter (\<lambda>c. c \<noteq> CHR ''='') (base64url_padded bs) = base64url bs"
  by (induction bs rule: base64url.induct) (simp_all add: Let_def b64url_char_not_pad)

text \<open>
  C5. For every verifier that \<open>generateCodeVerifier\<close> produces, the challenge of
  \<open>generateCodeChallenge\<close> is the base64url encoding of the SHA-256 digest of the verifier
  (as Node writes it, and as RFC 4648 writes it once the padding is removed); it has no
  padding character: it is 43 characters of the URL-safe alphabet. The verifier
  has no padding character either.
\<close>

theorem challenge_is_unpadded_base64url_of_sha256:
  "generateCodeChallenge (generateCodeVerifier env)
     = base64url (sha256 (utf8 (generateCodeVerifier env)))
   \<and> generateCodeChallenge (generateCodeVerifier env) = spec_challenge (generateCodeVerifier env)
   \<and> CHR ''='' \<notin> set (generateCodeChallenge (generateCodeVerifier env))
   \<and> length (generateCodeChallenge (generateCodeVerifier env)) = 43
   \<and> (\<forall>c \<in> set (generateCodeChallenge (generateCodeVerifier env)). url_safe c)
   \<and> CHR ''='' \<notin> set (generateCodeVerifier env)"
  by (simp add: generateCodeChallenge_def generateCodeVerifier_def base64url_no_padding
        length_base64url length_sha256 base64url_url_safe spec_challenge_def base64url_unpadded)

theorem challenge_is_unpadded_base64url_of_sha256_witness:
  "generateCodeChallenge (generateCodeVerifier (env0 (response0 200 ''OK'') []))
     = base64url (sha256 (utf8 (generateCodeVerifier (env0 (response0 200 ''OK'') []))))
   \<and> CHR ''='' \<notin> set (generateCodeChallenge (generateCodeVerifier (env0 (response0 200 ''OK'') [])))
   \<and> length (generateCodeChallenge (generateCodeVerifier (env0 (response0 200 ''OK'') []))) = 43"
  using challenge_is_unpadded_base64url_of_sha256 [of "env0 (response0 200 ''OK'') []"]
  by blast

end
